theory Spec2Isabelle
  imports Main "HOL-Library.AList"
begin

section \<open>JavaScript values and strings\<close>

text \<open>
  The values that flow through the workflow context (parsed YAML/JSON, step outputs).
  \<open>Num\<close> carries the integer-valued numbers; \<open>NaN\<close> is the one non-number number
  that matters for truthiness. \<open>Num 0\<close> stands for both \<open>0\<close> and \<open>-0\<close> (they are
  \<open>===\<close> and both falsy). Non-integer doubles and the infinities are outside the model.
  A plain object is an association list from property names to values.
  Strings are lists of code units below 256.
\<close>

datatype jsval =
    Undefined
  | Null
  | Bool bool
  | Num int
  | NaN
  | Str string
  | Arr "jsval list"
  | Obj "(string \<times> jsval) list"

text \<open>The built-in \<open>Boolean(value)\<close> (ECMAScript ToBoolean): objects and arrays are
  always truthy.\<close>

fun ToBoolean :: "jsval \<Rightarrow> bool" where
  "ToBoolean Undefined = False"
| "ToBoolean Null = False"
| "ToBoolean (Bool b) = b"
| "ToBoolean (Num n) = (n \<noteq> 0)"
| "ToBoolean NaN = False"
| "ToBoolean (Str s) = (s \<noteq> [])"
| "ToBoolean (Arr xs) = True"
| "ToBoolean (Obj kvs) = True"

text \<open>Decimal digits of a natural number, for \<open>String(n)\<close>.\<close>

definition digit_char :: "nat \<Rightarrow> char" where
  "digit_char d = ''0123456789'' ! d"

function show_nat :: "nat \<Rightarrow> string" where
  "show_nat n = (if n < 10 then [digit_char n] else show_nat (n div 10) @ [digit_char (n mod 10)])"
  by pat_completeness auto
termination
  by (relation "measure id") auto

declare show_nat.simps [simp del]

definition show_int :: "int \<Rightarrow> string" where
  "show_int i = (if i < 0 then CHR ''-'' # show_nat (nat (- i)) else show_nat (nat i))"

text \<open>\<open>Array.prototype.join\<close> on already converted elements.\<close>

fun join :: "string \<Rightarrow> string list \<Rightarrow> string" where
  "join sep [] = []"
| "join sep [x] = x"
| "join sep (x # y # ys) = x @ sep @ join sep (y # ys)"

text \<open>The built-in \<open>String(value)\<close>: an array joins its elements with commas, with
  \<open>null\<close> and \<open>undefined\<close> elements as empty strings; a plain object is
  \<open>[object Object]\<close>.\<close>

fun String :: "jsval \<Rightarrow> string" where
  "String Undefined = ''undefined''"
| "String Null = ''null''"
| "String (Bool b) = (if b then ''true'' else ''false'')"
| "String (Num n) = show_int n"
| "String NaN = ''NaN''"
| "String (Str s) = s"
| "String (Arr xs) =
     join '','' (map (\<lambda>x. if x = Undefined \<or> x = Null then [] else String x) xs)"
| "String (Obj kvs) = ''[object Object]''"

text \<open>\<open>toLowerCase\<close> on code units below 256: A-Z and the Latin-1 capitals
  (U+00C0..U+00DE except the multiplication sign) move up by 32.\<close>

definition lower_char :: "char \<Rightarrow> char" where
  "lower_char c =
     (let n = (of_char c :: nat)
      in if (65 \<le> n \<and> n \<le> 90) \<or> (192 \<le> n \<and> n \<le> 222 \<and> n \<noteq> 215)
         then char_of (n + 32) else c)"

definition toLowerCase :: "string \<Rightarrow> string" where
  "toLowerCase s = map lower_char s"

text \<open>\<open>s.startsWith(p)\<close> and \<open>s.includes(p)\<close>.\<close>

fun startsWith :: "string \<Rightarrow> string \<Rightarrow> bool" where
  "startsWith s [] = True"
| "startsWith [] (p # ps) = False"
| "startsWith (c # cs) (p # ps) = (c = p \<and> startsWith cs ps)"

fun str_includes :: "string \<Rightarrow> string \<Rightarrow> bool" where
  "str_includes [] p = (p = [])"
| "str_includes (c # cs) p = (startsWith (c # cs) p \<or> str_includes cs p)"

section \<open>Step executor: retry policy, error classification, backoff\<close>

datatype retryErrorPattern =
    timeout
  | api_error
  | network_error
  | rate_limit
  | server_error
  | authentication_error
  | validation_error
  | resource_unavailable
  | temporary_failure

text \<open>A retry policy as the executor reads it. \<open>backoffMs\<close> is optional at run time
  (the executor guards against a policy object without the field), \<open>retryOn\<close> is
  optional by type.\<close>

record retryPolicy =
  maxAttempts :: int
  backoffMs :: "int option"
  retryOn :: "retryErrorPattern list option"

text \<open>The error classes of the repository that the modelled code constructs, with
  the fields it sets: a step-execution error carries the workflow id and the step id, a
  state error the session id (when there is one) and the failing operation. \<open>FsError\<close>
  is an error of the file system with its \<open>code\<close>.\<close>

datatype operation = OpRead | OpWrite

datatype errorClass =
    PlainError
  | StepExecutionError string string
  | ValidationError
  | TemplateError
  | StateError "string option" "operation option"
  | FsError string

text \<open>What a \<open>catch\<close> clause can receive: an \<open>Error\<close> object (its class and its
  \<open>message\<close>) or any other thrown value.\<close>

datatype thrown =
    ErrorObj errorClass string
  | NonError jsval

fun classifyError :: "thrown \<Rightarrow> retryErrorPattern" where
  "classifyError err =
     (if (case err of ErrorObj nm msg \<Rightarrow> False | NonError v \<Rightarrow> \<not> ToBoolean v)
      then temporary_failure
      else
        let message = (case err of
                         ErrorObj nm msg \<Rightarrow> toLowerCase msg
                       | NonError v \<Rightarrow> toLowerCase (String v))
        in if str_includes message ''timeout'' then timeout
           else if str_includes message ''network'' \<or> str_includes message ''connection'' then network_error
           else if str_includes message ''rate limit'' then rate_limit
           else if str_includes message ''server error'' \<or> str_includes message ''500'' then server_error
           else if str_includes message ''auth'' then authentication_error
           else if str_includes message ''validation'' then validation_error
           else if str_includes message ''unavailable'' \<or> str_includes message ''busy''
             then resource_unavailable
           else temporary_failure)"

declare classifyError.simps [simp del]

text \<open>\<open>retryPolicy.backoffMs || 1000\<close>: a missing field and the falsy number 0 both
  select the default.\<close>

definition calculateRetryDelay :: "retryPolicy option \<Rightarrow> nat \<Rightarrow> int" where
  "calculateRetryDelay retryPolicy retryCount =
     (case retryPolicy of
        None \<Rightarrow> 1000
      | Some p \<Rightarrow>
          let baseDelay = (case backoffMs p of
                             None \<Rightarrow> 1000
                           | Some b \<Rightarrow> if b = 0 then 1000 else b)
          in baseDelay * 2 ^ retryCount)"

text \<open>A retry is attempted only under a policy, below the attempt ceiling, and when
  \<open>retryOn\<close> is given only for an error whose classification it lists.\<close>

definition shouldRetry :: "retryPolicy option \<Rightarrow> thrown \<Rightarrow> nat \<Rightarrow> bool" where
  "shouldRetry policy err retryCount =
     (case policy of
        None \<Rightarrow> False
      | Some p \<Rightarrow>
          if int retryCount \<ge> maxAttempts p then False
          else (case retryOn p of
                  Some patterns \<Rightarrow> classifyError err \<in> set patterns
                | None \<Rightarrow> True))"

section \<open>Step executor: steps, contexts and collaborators\<close>

type_synonym obj = "(string \<times> jsval) list"

text \<open>Object spread with one overriding key, and \<open>Object.assign(target, source)\<close>.\<close>

definition obj_assign :: "obj \<Rightarrow> obj \<Rightarrow> obj" where
  "obj_assign target source = fold (\<lambda>(k, v). AList.update k v) source target"

text \<open>Property read \<open>value[key]\<close> on a value that is an object: own properties of a
  plain object; the elements and \<open>length\<close> of an array. Inherited members of
  \<open>Object.prototype\<close> and \<open>Array.prototype\<close> are outside the model.\<close>

definition is_index :: "string \<Rightarrow> nat \<Rightarrow> bool" where
  "is_index key n = (\<exists>i \<in> set [0..<n]. show_nat i = key)"

definition index_of :: "string \<Rightarrow> nat \<Rightarrow> nat" where
  "index_of key n = hd (filter (\<lambda>i. show_nat i = key) [0..<n])"

fun get_prop :: "jsval \<Rightarrow> string \<Rightarrow> jsval" where
  "get_prop (Obj kvs) key = (case map_of kvs key of Some v \<Rightarrow> v | None \<Rightarrow> Undefined)"
| "get_prop (Arr xs) key =
     (if key = ''length'' then Num (int (length xs))
      else if is_index key (length xs) then xs ! index_of key (length xs)
      else Undefined)"
| "get_prop v key = Undefined"

fun typeof :: "jsval \<Rightarrow> string" where
  "typeof Undefined = ''undefined''"
| "typeof Null = ''object''"
| "typeof (Bool b) = ''boolean''"
| "typeof (Num n) = ''number''"
| "typeof NaN = ''number''"
| "typeof (Str s) = ''string''"
| "typeof (Arr xs) = ''object''"
| "typeof (Obj kvs) = ''object''"

text \<open>\<open>s.split(c)\<close> for a one-character separator: never empty.\<close>

fun split_on :: "char \<Rightarrow> string \<Rightarrow> string list" where
  "split_on c [] = [[]]"
| "split_on c (x # xs) =
     (if x = c then [] # split_on c xs
      else (case split_on c xs of
              p # ps \<Rightarrow> (x # p) # ps
            | [] \<Rightarrow> [[x]]))"

text \<open>\<open>resolveValue\<close> of the step executor: dotted lookup, \<open>undefined\<close> as soon as
  the current value is \<open>null\<close>, \<open>undefined\<close> or not an object.\<close>

fun resolveValue_keys :: "string list \<Rightarrow> jsval \<Rightarrow> jsval" where
  "resolveValue_keys [] current = current"
| "resolveValue_keys (key # keys) current =
     (if current = Null \<or> current = Undefined \<or> typeof current \<noteq> ''object'' then Undefined
      else resolveValue_keys keys (get_prop current key))"

definition resolveValue :: "string \<Rightarrow> obj \<Rightarrow> jsval" where
  "resolveValue path variables = resolveValue_keys (split_on CHR ''.'' path) (Obj variables)"

text \<open>\<open>trim\<close>: the white space and line terminators among the code units below 256.\<close>

definition is_space :: "char \<Rightarrow> bool" where
  "is_space c = (of_char c \<in> {9, 10, 11, 12, 13, 32, 160 :: nat})"

definition trim :: "string \<Rightarrow> string" where
  "trim s = rev (dropWhile is_space (rev (dropWhile is_space s)))"

datatype stepType = AiPrompt | Script | Validation | Loop | Conditional | OtherType string

text \<open>A step, field by field as in the \<open>Step\<close> interface: id, type, agent, template,
  command, condition, steps, items, retryPolicy, expectedExitCode.\<close>

datatype step =
  Step (step_id: string) (step_type: stepType) (agent: "string option")
       (template: "string option") (command: "string option") (condition: "string option")
       (steps: "step list option") (items: "string option")
       (retryPolicy: "retryPolicy option") (expectedExitCode: "int option")

record Context =
  inputs :: obj
  variables :: obj
  ctx_outputs :: obj

record StepContext = Context +
  sc_sessionId :: string
  sc_stepId :: string
  sc_retryCount :: "nat option"

record StepResult =
  outputs :: obj
  shouldContinue :: bool
  nextStepIndex :: "nat option"

text \<open>\<open>!s\<close> for an optional string: absent or empty.\<close>

definition missing :: "string option \<Rightarrow> bool" where
  "missing s = (s = None \<or> s = Some [])"

text \<open>The effects of the executor, in order: an attempt of the retry wrapper at a step
  (step id and retry count), a backoff sleep (milliseconds), a spawned shell command.\<close>

datatype event =
    Attempt string nat
  | Slept int
  | Spawned string

text \<open>How a spawned process ends: it closes with its captured output and exit code
  (\<open>null\<close> when killed by a signal), or it cannot be started.\<close>

datatype processOutcome =
    Closed string string "int option"
  | SpawnFailed string

record commandResult =
  stdout :: string
  stderr :: string
  exitCode :: int

text \<open>The collaborators of the executor: the injected template engine's \<open>render\<close> (\<open>engine_render\<close>),
  the condition evaluator (\<open>evaluateCondition\<close>, which exists in two versions in the
  sources), and the operating system answering a spawned shell command; its answer may
  depend on everything that happened before.\<close>

record executorEnv =
  engine_render :: "string \<Rightarrow> obj \<Rightarrow> thrown + string"
  evaluateCondition :: "string \<Rightarrow> obj \<Rightarrow> thrown + bool"
  spawn :: "string \<Rightarrow> event list \<Rightarrow> processOutcome"

definition runCommand ::
  "executorEnv \<Rightarrow> string \<Rightarrow> int \<Rightarrow> event list \<Rightarrow> (thrown + commandResult) \<times> event list" where
  "runCommand env cmd expected tr =
     (case spawn env cmd tr of
        Closed out err code \<Rightarrow>
          let exitCode = (case code of Some c \<Rightarrow> c | None \<Rightarrow> - 1)
          in if exitCode = expected
             then (Inr \<lparr>stdout = trim out, stderr = trim err, exitCode = exitCode\<rparr>,
                   tr @ [Spawned cmd])
             else (Inl (ErrorObj PlainError
                     (''Command failed with exit code '' @ show_int exitCode @ ''. stderr: '' @ err)),
                   tr @ [Spawned cmd])
      | SpawnFailed msg \<Rightarrow>
          (Inl (ErrorObj PlainError (''Failed to execute command: '' @ msg)), tr @ [Spawned cmd]))"

definition error_message :: "thrown \<Rightarrow> string" where
  "error_message e = (case e of ErrorObj c m \<Rightarrow> m | NonError v \<Rightarrow> ''Unknown error'')"

text \<open>\<open>a || b\<close> for an optional string \<open>a\<close>.\<close>

definition or_else :: "string option \<Rightarrow> string \<Rightarrow> string" where
  "or_else a b = (case a of Some (c # cs) \<Rightarrow> c # cs | _ \<Rightarrow> b)"

section \<open>Step executor: the step types\<close>

text \<open>Every function takes the trace of effects so far and returns it extended, next to
  the result or the thrown error. Debug logging is left out.\<close>

type_synonym 'a outcome = "(thrown + 'a) \<times> event list"

definition executeAIPrompt :: "executorEnv \<Rightarrow> step \<Rightarrow> StepContext \<Rightarrow> event list \<Rightarrow> StepResult outcome" where
  "executeAIPrompt env step context tr =
     (if missing (template step) \<and> missing (agent step)
      then (Inl (ErrorObj (StepExecutionError ''unknown-workflow'' (step_id step))
                  ''AI prompt step requires either template or agent configuration''), tr)
      else
        (case (if missing (template step) then Inr []
               else engine_render env (or_else (template step) []) (variables context)) of
           Inl e \<Rightarrow> (Inl e, tr)
         | Inr prompt \<Rightarrow>
             (Inr \<lparr>outputs =
                     [(''ai_response'',
                       Str ''Placeholder AI response - AI Interface not yet implemented''),
                      (''prompt_used'', Str (or_else (template step) ''Agent-specific prompt''))],
                   shouldContinue = True, nextStepIndex = None\<rparr>, tr)))"

definition executeScript :: "executorEnv \<Rightarrow> step \<Rightarrow> StepContext \<Rightarrow> event list \<Rightarrow> StepResult outcome" where
  "executeScript env step context tr =
     (if missing (command step)
      then (Inl (ErrorObj (StepExecutionError ''unknown-workflow'' (step_id step))
                  ''Script step requires command configuration''), tr)
      else
        (case engine_render env (or_else (command step) []) (variables context) of
           Inl e \<Rightarrow> (Inl e, tr)
         | Inr cmd \<Rightarrow>
             (case runCommand env cmd (case expectedExitCode step of Some c \<Rightarrow> c | None \<Rightarrow> 0) tr of
                (Inr result, tr') \<Rightarrow>
                  (Inr \<lparr>outputs =
                          [(''stdout'', Str (stdout result)),
                           (''stderr'', Str (stderr result)),
                           (''exitCode'', Num (exitCode result)),
                           (''command'', Str cmd)],
                        shouldContinue = True, nextStepIndex = None\<rparr>, tr')
              | (Inl error, tr') \<Rightarrow>
                  (Inl (ErrorObj (StepExecutionError ''unknown-workflow'' (step_id step))
                          (''Script execution failed: '' @ error_message error)), tr'))))"

definition executeValidation :: "executorEnv \<Rightarrow> step \<Rightarrow> StepContext \<Rightarrow> event list \<Rightarrow> StepResult outcome" where
  "executeValidation env step context tr =
     (if missing (condition step)
      then (Inl (ErrorObj (StepExecutionError ''unknown-workflow'' (step_id step))
                  ''Validation step requires condition configuration''), tr)
      else
        (case engine_render env (or_else (condition step) []) (variables context) of
           Inl e \<Rightarrow> (Inl e, tr)
         | Inr cond \<Rightarrow>
             (case evaluateCondition env cond (variables context) of
                Inl e \<Rightarrow> (Inl e, tr)
              | Inr isValid \<Rightarrow>
                  if \<not> isValid
                  then (Inl (ErrorObj ValidationError (''Validation failed: '' @ cond)), tr)
                  else (Inr \<lparr>outputs = [(''validated'', Bool True), (''condition'', Str cond)],
                             shouldContinue = True, nextStepIndex = None\<rparr>, tr))))"

text \<open>The variables of one loop iteration: the enclosing ones with \<open>item\<close>,
  \<open>index\<close>, \<open>first\<close> and \<open>last\<close> set.\<close>

definition iterationContext :: "StepContext \<Rightarrow> jsval \<Rightarrow> nat \<Rightarrow> nat \<Rightarrow> StepContext" where
  "iterationContext context item i n =
     context\<lparr>variables :=
       AList.update ''last'' (Bool (int i = int n - 1))
         (AList.update ''first'' (Bool (i = 0))
           (AList.update ''index'' (Num (int i))
             (AList.update ''item'' item (variables context))))\<rparr>"

text \<open>
  The dispatch on the step type with the two composite step types. \<open>executeSubSteps\<close>
  is the inner \<open>for (const subStep of step.steps)\<close> loop that both of them contain: each
  child goes through \<open>executeStepByType\<close>, its outputs are merged into the
  accumulator, a child that throws ends the loop with its error, a child that returns
  \<open>shouldContinue = false\<close> ends it normally. \<open>executeLoop_items\<close> is the outer loop
  of \<open>executeLoop\<close> over the items from index \<open>i\<close> on.
\<close>

function (sequential) executeStepByType :: "executorEnv \<Rightarrow> step \<Rightarrow> StepContext \<Rightarrow> event list \<Rightarrow> StepResult outcome"
and executeLoop :: "executorEnv \<Rightarrow> step \<Rightarrow> StepContext \<Rightarrow> event list \<Rightarrow> StepResult outcome"
and executeLoop_items ::
  "executorEnv \<Rightarrow> step list \<Rightarrow> StepContext \<Rightarrow> nat \<Rightarrow> nat \<Rightarrow> jsval list \<Rightarrow> jsval list \<Rightarrow> event list
     \<Rightarrow> (jsval list) outcome"
and executeConditional :: "executorEnv \<Rightarrow> step \<Rightarrow> StepContext \<Rightarrow> event list \<Rightarrow> StepResult outcome"
and executeSubSteps :: "executorEnv \<Rightarrow> step list \<Rightarrow> StepContext \<Rightarrow> obj \<Rightarrow> event list \<Rightarrow> obj outcome"
where
  "executeStepByType env (Step sid ty ag tm cm cd ss it rp ee) context tr =
     (case ty of
        AiPrompt \<Rightarrow> executeAIPrompt env (Step sid ty ag tm cm cd ss it rp ee) context tr
      | Script \<Rightarrow> executeScript env (Step sid ty ag tm cm cd ss it rp ee) context tr
      | Validation \<Rightarrow> executeValidation env (Step sid ty ag tm cm cd ss it rp ee) context tr
      | Loop \<Rightarrow> executeLoop env (Step sid ty ag tm cm cd ss it rp ee) context tr
      | Conditional \<Rightarrow> executeConditional env (Step sid ty ag tm cm cd ss it rp ee) context tr
      | OtherType name \<Rightarrow>
          (Inl (ErrorObj (StepExecutionError ''unknown-workflow'' sid)
                  (''Unknown step type: '' @ name)), tr))"
| "executeLoop env (Step sid ty ag tm cm cd ss it rp ee) context tr =
     (case ss of
        None \<Rightarrow>
          (Inl (ErrorObj (StepExecutionError ''unknown-workflow'' sid)
                  ''Loop step requires items and steps configuration''), tr)
      | Some subs \<Rightarrow>
          if missing it
          then (Inl (ErrorObj (StepExecutionError ''unknown-workflow'' sid)
                      ''Loop step requires items and steps configuration''), tr)
          else
            (case resolveValue (or_else it []) (variables context) of
               Arr xs \<Rightarrow>
                 (case executeLoop_items env subs context (length xs) 0 xs [] tr of
                    (Inl e, tr') \<Rightarrow> (Inl e, tr')
                  | (Inr iterations, tr') \<Rightarrow>
                      (Inr \<lparr>outputs = [(''iterations'', Arr iterations),
                                        (''total_count'', Num (int (length xs)))],
                            shouldContinue = True, nextStepIndex = None\<rparr>, tr'))
             | v \<Rightarrow>
                 (Inl (ErrorObj (StepExecutionError ''unknown-workflow'' sid)
                         (''Loop items must be an array, got '' @ typeof v)), tr)))"
| "executeLoop_items env subs context n i [] iterations tr = (Inr iterations, tr)"
| "executeLoop_items env subs context n i (item # rest) iterations tr =
     (case executeSubSteps env subs (iterationContext context item i n) [] tr of
        (Inl e, tr') \<Rightarrow> (Inl e, tr')
      | (Inr iterationOutputs, tr') \<Rightarrow>
          executeLoop_items env subs context n (Suc i) rest
            (iterations @ [Obj [(''index'', Num (int i)), (''item'', item),
                                (''outputs'', Obj iterationOutputs)]]) tr')"
| "executeConditional env (Step sid ty ag tm cm cd ss it rp ee) context tr =
     (case ss of
        None \<Rightarrow>
          (Inl (ErrorObj (StepExecutionError ''unknown-workflow'' sid)
                  ''Conditional step requires condition and steps configuration''), tr)
      | Some subs \<Rightarrow>
          if missing cd
          then (Inl (ErrorObj (StepExecutionError ''unknown-workflow'' sid)
                      ''Conditional step requires condition and steps configuration''), tr)
          else
            (case engine_render env (or_else cd []) (variables context) of
               Inl e \<Rightarrow> (Inl e, tr)
             | Inr cond \<Rightarrow>
                 (case evaluateCondition env cond (variables context) of
                    Inl e \<Rightarrow> (Inl e, tr)
                  | Inr shouldExecute \<Rightarrow>
                      if shouldExecute
                      then (case executeSubSteps env subs context [] tr of
                              (Inl e, tr') \<Rightarrow> (Inl e, tr')
                            | (Inr stepOutputs, tr') \<Rightarrow>
                                (Inr \<lparr>outputs = [(''condition'', Str cond),
                                                  (''executed'', Bool True),
                                                  (''outputs'', Obj stepOutputs)],
                                      shouldContinue = True, nextStepIndex = None\<rparr>, tr'))
                      else (Inr \<lparr>outputs = [(''condition'', Str cond),
                                              (''executed'', Bool False)],
                                 shouldContinue = True, nextStepIndex = None\<rparr>, tr))))"
| "executeSubSteps env [] context acc tr = (Inr acc, tr)"
| "executeSubSteps env (subStep # rest) context acc tr =
     (case executeStepByType env subStep context tr of
        (Inl e, tr') \<Rightarrow> (Inl e, tr')
      | (Inr stepResult, tr') \<Rightarrow>
          if \<not> shouldContinue stepResult
          then (Inr (obj_assign acc (outputs stepResult)), tr')
          else executeSubSteps env rest context (obj_assign acc (outputs stepResult)) tr')"
  by pat_completeness auto
termination
  apply (relation "inv_image (less_than <*lex*> less_than)
     (\<lambda>x. case x of
        Inl (Inl (env, step, c, t)) \<Rightarrow> (2 * size step + 1, 0)
      | Inl (Inr (env, step, c, t)) \<Rightarrow> (2 * size step, 0)
      | Inr (Inl (env, subs, c, n, i, xs, its, t)) \<Rightarrow> (2 * size_list size subs + 1, length xs)
      | Inr (Inr (Inl (env, step, c, t))) \<Rightarrow> (2 * size step, 0)
      | Inr (Inr (Inr (env, subs, c, acc, t))) \<Rightarrow> (2 * size_list size subs, 0))")
  apply (rule wf_inv_image, rule wf_lex_prod, rule wf_less_than, rule wf_less_than)
  apply simp_all
  done

section \<open>Step executor: the retry wrapper\<close>

definition stepContext :: "Context \<Rightarrow> string \<Rightarrow> step \<Rightarrow> nat \<Rightarrow> StepContext" where
  "stepContext context sid step retryCount =
     \<lparr>inputs = inputs context, variables = variables context, ctx_outputs = ctx_outputs context,
      sc_sessionId = sid, sc_stepId = step_id step, sc_retryCount = Some retryCount\<rparr>"

lemma shouldRetry_below_ceiling:
  "shouldRetry policy err k \<Longrightarrow> \<exists>p. policy = Some p \<and> int k < maxAttempts p"
  by (auto simp: shouldRetry_def split: option.splits if_splits)

text \<open>\<open>executeStep\<close>: one attempt through the dispatch; on a thrown error, when
  \<open>shouldRetry\<close> allows, sleep for the computed delay and start over with
  \<open>retryCount + 1\<close>; otherwise rethrow.\<close>

function executeStep ::
  "executorEnv \<Rightarrow> step \<Rightarrow> Context \<Rightarrow> string \<Rightarrow> nat \<Rightarrow> event list \<Rightarrow> StepResult outcome" where
  "executeStep env step context sid retryCount tr =
     (case executeStepByType env step (stepContext context sid step retryCount)
             (tr @ [Attempt (step_id step) retryCount]) of
        (Inr result, tr') \<Rightarrow> (Inr result, tr')
      | (Inl error, tr') \<Rightarrow>
          if shouldRetry (retryPolicy step) error retryCount
          then executeStep env step context sid (retryCount + 1)
                 (tr' @ [Slept (calculateRetryDelay (retryPolicy step) retryCount)])
          else (Inl error, tr'))"
  by pat_completeness auto
termination
  apply (relation "measure (\<lambda>(env, step, context, sid, retryCount, tr).
            case retryPolicy step of
              None \<Rightarrow> 0
            | Some p \<Rightarrow> nat (maxAttempts p - int retryCount))")
   apply simp
  apply (auto dest!: shouldRetry_below_ceiling)
  done

declare executeStep.simps [simp del]

text \<open>Reading a trace: the retry counts of the wrapper's attempts, and the delays of
  the backoff sleeps, each in order.\<close>

fun attempts :: "event list \<Rightarrow> nat list" where
  "attempts [] = []"
| "attempts (Attempt i k # tr) = k # attempts tr"
| "attempts (e # tr) = attempts tr"

fun sleeps :: "event list \<Rightarrow> int list" where
  "sleeps [] = []"
| "sleeps (Slept d # tr) = d # sleeps tr"
| "sleeps (e # tr) = sleeps tr"

lemma attempts_append [simp]: "attempts (a @ b) = attempts a @ attempts b"
  by (induction a rule: attempts.induct) auto

lemma sleeps_append [simp]: "sleeps (a @ b) = sleeps a @ sleeps b"
  by (induction a rule: sleeps.induct) auto

text \<open>Between two traces nothing of the retry wrapper happened: no attempt, no sleep.\<close>

definition quiet :: "event list \<Rightarrow> event list \<Rightarrow> bool" where
  "quiet tr tr' = (attempts tr' = attempts tr \<and> sleeps tr' = sleeps tr)"

lemma quiet_refl [simp]: "quiet tr tr"
  by (simp add: quiet_def)

lemma quiet_trans: "quiet a b \<Longrightarrow> quiet b c \<Longrightarrow> quiet a c"
  by (simp add: quiet_def)


text \<open>A step with every retry policy below it removed and its own replaced.\<close>

primrec erase :: "retryPolicy option \<Rightarrow> step \<Rightarrow> step" where
  "erase rp' (Step sid ty ag tm cm cd ss it rp ee) =
     Step sid ty ag tm cm cd (map_option (map (erase None)) ss) it rp' ee"


definition drop_policies :: "step \<Rightarrow> step" where
  "drop_policies step = erase None step"

definition drop_child_policies :: "step \<Rightarrow> step" where
  "drop_child_policies step = erase (retryPolicy step) step"

text \<open>Fixtures for the witnesses: a template engine that returns the template
  unchanged, a condition evaluator that holds only for the text \<open>true\<close>, a shell that
  always exits 0; a validation step that always fails and has a retry policy of its own;
  a conditional step around it, without a policy.\<close>

definition fixture_env :: executorEnv where
  "fixture_env =
     \<lparr>engine_render = (\<lambda>t v. Inr t),
      evaluateCondition = (\<lambda>c v. Inr (c = ''true'')),
      spawn = (\<lambda>c tr. Closed [] [] (Some 0))\<rparr>"

definition fixture_policy :: retryPolicy where
  "fixture_policy = \<lparr>maxAttempts = 2, backoffMs = Some 100, retryOn = None\<rparr>"

definition failing_step :: step where
  "failing_step =
     Step ''check'' Validation None None None (Some ''false'') None None
       (Some fixture_policy) None"

definition guard_step :: step where
  "guard_step =
     Step ''guard'' Conditional None None None (Some ''true'') (Some [failing_step]) None
       None None"

definition fixture_context :: Context where
  "fixture_context = \<lparr>inputs = [], variables = [], ctx_outputs = []\<rparr>"

section \<open>State manager: sessions and the file system\<close>

datatype workflowStatus = Running | Paused | Completed | Failed

datatype stepStatus = StepSuccess | StepFailed | StepSkipped | StepPending

record StepExecution =
  se_stepId :: string
  se_startedAt :: nat
  se_completedAt :: "nat option"
  se_status :: stepStatus
  se_inputs :: jsval
  se_outputs :: jsval
  se_error :: "string option"
  se_retryCount :: "nat option"

text \<open>The persisted unit. Dates are points on a clock. \<open>context\<close> is kept as the
  plain object it is at run time, since \<open>updateContext\<close> merges arbitrary keys into it.\<close>

record WorkflowSessionState =
  sessionId :: string
  workflowId :: string
  status :: workflowStatus
  ws_inputs :: obj
  ws_context :: obj
  ws_outputs :: obj
  stepExecutions :: "StepExecution list"
  currentStepIndex :: int
  createdAt :: nat
  updatedAt :: nat
  metadata :: obj

text \<open>What \<open>JSON.stringify\<close> followed by \<open>JSON.parse\<close> makes of a value: a property
  whose value is \<open>undefined\<close> is dropped, \<open>undefined\<close> in an array and \<open>NaN\<close> become
  \<open>null\<close>.\<close>

primrec json_value :: "jsval \<Rightarrow> jsval" where
  "json_value Undefined = Undefined"
| "json_value Null = Null"
| "json_value (Bool b) = Bool b"
| "json_value (Num n) = Num n"
| "json_value NaN = Null"
| "json_value (Str s) = Str s"
| "json_value (Arr xs) = Arr (map (\<lambda>v. if v = Undefined then Null else v) (map json_value xs))"
| "json_value (Obj kvs) =
     Obj (filter (\<lambda>(k, v). v \<noteq> Undefined) (map (map_prod id json_value) kvs))"

definition json_obj :: "obj \<Rightarrow> obj" where
  "json_obj kvs = filter (\<lambda>(k, v). v \<noteq> Undefined) (map (map_prod id json_value) kvs)"

text \<open>A session state as it comes back from its file: \<open>JSON.stringify\<close>, \<open>JSON.parse\<close>
  and \<open>deserializeState\<close>, which restores the dates. The typed fields come back as
  written; the untyped ones go through \<open>json_value\<close>.\<close>

definition roundtrip_execution :: "StepExecution \<Rightarrow> StepExecution" where
  "roundtrip_execution e =
     e\<lparr>se_inputs := json_value (se_inputs e), se_outputs := json_value (se_outputs e)\<rparr>"

definition roundtrip :: "WorkflowSessionState \<Rightarrow> WorkflowSessionState" where
  "roundtrip s =
     s\<lparr>ws_inputs := json_obj (ws_inputs s), ws_context := json_obj (ws_context s),
       ws_outputs := json_obj (ws_outputs s),
       stepExecutions := map roundtrip_execution (stepExecutions s),
       metadata := json_obj (metadata s)\<rparr>"

text \<open>The content of a file: the JSON text of a session state (kept as the state that
  parsing it gives), or anything else, which \<open>JSON.parse\<close> rejects.\<close>

datatype fileContent =
    SessionJson WorkflowSessionState
  | OtherContent string

text \<open>What the file system does to the next call: it works, it fails with an error
  code, or (for a write) it fails after leaving a torn file with the given text.\<close>

datatype fault = Ok | Fail string | Torn string string

datatype syscall =
    Mkdir string
  | WriteFile string
  | Rename string string
  | Unlink string
  | ReadFile string
  | Access string

text \<open>
  The world of the state manager: the files by path, the faults the file system will
  answer the coming calls with (none left: the call works), the clock, the warnings
  logged, and the system calls made so far. Directories are not represented: a path
  either holds a file or not. Paths are relative to the state directory and built by
  plain concatenation (no \<open>path.join\<close> normalisation of a session id).
\<close>

record world =
  files :: "string \<rightharpoonup> fileContent"
  faults :: "fault list"
  now :: nat
  warnings :: "string list"
  calls :: "syscall list"

type_synonym 'a io = "(thrown + 'a) \<times> world"

definition fs_error :: "string \<Rightarrow> thrown" where
  "fs_error code = ErrorObj (FsError code) code"

text \<open>Every call of the file system takes the next fault and records itself.\<close>

definition enter :: "syscall \<Rightarrow> world \<Rightarrow> fault \<times> world" where
  "enter call w =
     (case faults w of
        [] \<Rightarrow> (Ok, w\<lparr>calls := calls w @ [call]\<rparr>)
      | f # fs \<Rightarrow> (f, w\<lparr>faults := fs, calls := calls w @ [call]\<rparr>))"

definition fault_code :: "fault \<Rightarrow> string option" where
  "fault_code f = (case f of Ok \<Rightarrow> None | Fail code \<Rightarrow> Some code | Torn code text \<Rightarrow> Some code)"

definition fs_mkdir :: "string \<Rightarrow> world \<Rightarrow> unit io" where
  "fs_mkdir path w =
     (case enter (Mkdir path) w of
        (f, w1) \<Rightarrow> (case fault_code f of Some code \<Rightarrow> (Inl (fs_error code), w1)
                                      | None \<Rightarrow> (Inr (), w1)))"

definition fs_writeFile :: "string \<Rightarrow> fileContent \<Rightarrow> world \<Rightarrow> unit io" where
  "fs_writeFile path content w =
     (case enter (WriteFile path) w of
        (Ok, w1) \<Rightarrow> (Inr (), w1\<lparr>files := (files w1)(path \<mapsto> content)\<rparr>)
      | (Fail code, w1) \<Rightarrow> (Inl (fs_error code), w1)
      | (Torn code text, w1) \<Rightarrow>
          (Inl (fs_error code), w1\<lparr>files := (files w1)(path \<mapsto> OtherContent text)\<rparr>))"

definition fs_rename :: "string \<Rightarrow> string \<Rightarrow> world \<Rightarrow> unit io" where
  "fs_rename src dst w =
     (case enter (Rename src dst) w of
        (f, w1) \<Rightarrow>
          (case fault_code f of
             Some code \<Rightarrow> (Inl (fs_error code), w1)
           | None \<Rightarrow>
               (case files w1 src of
                  None \<Rightarrow> (Inl (fs_error ''ENOENT''), w1)
                | Some content \<Rightarrow>
                    (Inr (), w1\<lparr>files := ((files w1)(src := None))(dst \<mapsto> content)\<rparr>))))"

definition fs_unlink :: "string \<Rightarrow> world \<Rightarrow> unit io" where
  "fs_unlink path w =
     (case enter (Unlink path) w of
        (f, w1) \<Rightarrow>
          (case fault_code f of
             Some code \<Rightarrow> (Inl (fs_error code), w1)
           | None \<Rightarrow>
               (case files w1 path of
                  None \<Rightarrow> (Inl (fs_error ''ENOENT''), w1)
                | Some content \<Rightarrow> (Inr (), w1\<lparr>files := (files w1)(path := None)\<rparr>))))"

definition fs_readFile :: "string \<Rightarrow> world \<Rightarrow> fileContent io" where
  "fs_readFile path w =
     (case enter (ReadFile path) w of
        (f, w1) \<Rightarrow>
          (case fault_code f of
             Some code \<Rightarrow> (Inl (fs_error code), w1)
           | None \<Rightarrow>
               (case files w1 path of
                  None \<Rightarrow> (Inl (fs_error ''ENOENT''), w1)
                | Some content \<Rightarrow> (Inr content, w1))))"

definition fs_access :: "string \<Rightarrow> world \<Rightarrow> unit io" where
  "fs_access path w =
     (case enter (Access path) w of
        (f, w1) \<Rightarrow>
          (case fault_code f of
             Some code \<Rightarrow> (Inl (fs_error code), w1)
           | None \<Rightarrow>
               (case files w1 path of
                  None \<Rightarrow> (Inl (fs_error ''ENOENT''), w1)
                | Some content \<Rightarrow> (Inr (), w1))))"

section \<open>State manager: the operations\<close>

definition statusDir :: "workflowStatus \<Rightarrow> string" where
  "statusDir s =
     (case s of Running \<Rightarrow> ''running'' | Paused \<Rightarrow> ''paused''
              | Completed \<Rightarrow> ''completed'' | Failed \<Rightarrow> ''failed'')"

definition getSessionFilePath :: "string \<Rightarrow> workflowStatus \<Rightarrow> string" where
  "getSessionFilePath sid s = statusDir s @ ''/'' @ sid @ ''.json''"

definition isFileNotFoundError :: "thrown \<Rightarrow> bool" where
  "isFileNotFoundError e = (case e of ErrorObj (FsError code) m \<Rightarrow> code = ''ENOENT'' | _ \<Rightarrow> False)"

definition getErrorMessage :: "thrown \<Rightarrow> string" where
  "getErrorMessage e = (case e of ErrorObj c m \<Rightarrow> m | NonError v \<Rightarrow> String v)"

text \<open>\<open>initialize\<close>: the base directory (the empty relative path), then the four
  status directories, stopping at the first failure.\<close>

fun mkdirs :: "string list \<Rightarrow> world \<Rightarrow> unit io" where
  "mkdirs [] w = (Inr (), w)"
| "mkdirs (d # ds) w =
     (case fs_mkdir d w of
        (Inl e, w1) \<Rightarrow> (Inl e, w1)
      | (Inr u, w1) \<Rightarrow> mkdirs ds w1)"

declare mkdirs.simps [simp del]

definition initialize :: "world \<Rightarrow> unit io" where
  "initialize w =
     (case mkdirs ([] # map statusDir [Running, Paused, Completed, Failed]) w of
        (Inl e, w1) \<Rightarrow>
          (Inl (ErrorObj (StateError None (Some OpWrite))
                  (''Failed to initialize state directories: '' @ getErrorMessage e)), w1)
      | (Inr u, w1) \<Rightarrow> (Inr (), w1))"

text \<open>\<open>saveSession\<close>: write the state, stamped with the current time, to the
  temporary file and rename it onto the session file; on a failure of either, try to
  remove the temporary file, whatever comes of that, and throw the state error.\<close>

definition saveSession :: "WorkflowSessionState \<Rightarrow> world \<Rightarrow> unit io" where
  "saveSession state w =
     (case initialize w of
        (Inl e, w1) \<Rightarrow> (Inl e, w1)
      | (Inr u, w1) \<Rightarrow>
          let sessionFile = getSessionFilePath (sessionId state) (status state);
              tempFile = sessionFile @ ''.tmp'';
              stateToSave = state\<lparr>updatedAt := now w1\<rparr>;
              attempt =
                (case fs_writeFile tempFile (SessionJson (roundtrip stateToSave)) w1 of
                   (Inl e, w2) \<Rightarrow> (Inl e, w2)
                 | (Inr u, w2) \<Rightarrow> fs_rename tempFile sessionFile w2)
          in (case attempt of
                (Inr u, w3) \<Rightarrow> (Inr (), w3)
              | (Inl error, w3) \<Rightarrow>
                  (Inl (ErrorObj (StateError (Some (sessionId state)) (Some OpWrite))
                          (''Failed to save session '' @ sessionId state @ '': ''
                             @ getErrorMessage error)),
                   snd (fs_unlink tempFile w3))))"

text \<open>The probe over the four partitions in their fixed order.\<close>

fun probe :: "string \<Rightarrow> workflowStatus list \<Rightarrow> world \<Rightarrow> string io" where
  "probe sid [] w =
     (Inl (ErrorObj (StateError (Some sid) (Some OpRead))
             (''Session '' @ sid @ '' not found in any directory'')), w)"
| "probe sid (s # ss) w =
     (case fs_access (getSessionFilePath sid s) w of
        (Inr u, w1) \<Rightarrow> (Inr (getSessionFilePath sid s), w1)
      | (Inl e, w1) \<Rightarrow> probe sid ss w1)"

declare probe.simps [simp del]

definition findSessionFile :: "string \<Rightarrow> world \<Rightarrow> string io" where
  "findSessionFile sid w = probe sid [Running, Paused, Completed, Failed] w"

definition json_parse :: "fileContent \<Rightarrow> thrown + WorkflowSessionState" where
  "json_parse content =
     (case content of
        SessionJson s \<Rightarrow> Inr s
      | OtherContent text \<Rightarrow> Inl (ErrorObj PlainError ''Unexpected token in JSON''))"

definition loadSession :: "string \<Rightarrow> workflowStatus option \<Rightarrow> world \<Rightarrow> WorkflowSessionState io" where
  "loadSession sid expectedStatus w =
     (case (case expectedStatus of
              Some s \<Rightarrow> (Inr (getSessionFilePath sid s), w)
            | None \<Rightarrow> findSessionFile sid w) of
        (Inl e, w1) \<Rightarrow> (Inl e, w1)
      | (Inr sessionFile, w1) \<Rightarrow>
          (case (case fs_readFile sessionFile w1 of
                   (Inl e, w2) \<Rightarrow> (Inl e, w2)
                 | (Inr content, w2) \<Rightarrow> (json_parse content, w2)) of
             (Inr state, w2) \<Rightarrow> (Inr state, w2)
           | (Inl error, w2) \<Rightarrow>
               if isFileNotFoundError error
               then (Inl (ErrorObj (StateError (Some sid) (Some OpRead))
                            (''Session '' @ sid @ '' not found'')), w2)
               else (Inl (ErrorObj (StateError (Some sid) (Some OpRead))
                            (''Failed to load session '' @ sid @ '': '' @ getErrorMessage error)),
                     w2)))"


text \<open>\<open>updateSessionStatus\<close>: the old file's path is computed from the status
  recorded in the loaded state; its removal is skipped when the status did not change,
  and a failure of the removal is logged, not thrown.\<close>

definition updateSessionStatus :: "string \<Rightarrow> workflowStatus \<Rightarrow> world \<Rightarrow> unit io" where
  "updateSessionStatus sid newStatus w =
     (case loadSession sid None w of
        (Inl e, w1) \<Rightarrow> (Inl e, w1)
      | (Inr currentState, w1) \<Rightarrow>
          let currentFile = getSessionFilePath sid (status currentState);
              updatedState = currentState\<lparr>status := newStatus, updatedAt := now w1\<rparr>
          in (case saveSession updatedState w1 of
                (Inl e, w2) \<Rightarrow> (Inl e, w2)
              | (Inr u, w2) \<Rightarrow>
                  if status currentState \<noteq> newStatus
                  then (case fs_unlink currentFile w2 of
                          (Inr u, w3) \<Rightarrow> (Inr (), w3)
                        | (Inl error, w3) \<Rightarrow>
                            (Inr (),
                             w3\<lparr>warnings := warnings w3 @
                                  [''Could not remove old session file '' @ currentFile @ '': ''
                                     @ getErrorMessage error]\<rparr>))
                  else (Inr (), w2)))"




text \<open>Fixtures for the witnesses: a session as \<open>createSession\<close> writes it, and a
  world that holds it in the running partition, with a given list of faults to come.\<close>

definition fixture_session :: WorkflowSessionState where
  "fixture_session =
     \<lparr>sessionId = ''s1'', workflowId = ''wf'', status = Running, ws_inputs = [],
      ws_context = [(''inputs'', Obj []), (''variables'', Obj []), (''outputs'', Obj [])],
      ws_outputs = [], stepExecutions = [], currentStepIndex = 0,
      createdAt = 1, updatedAt = 1, metadata = []\<rparr>"

definition fixture_world :: "fault list \<Rightarrow> world" where
  "fixture_world fs =
     \<lparr>files = [''running/s1.json'' \<mapsto> SessionJson fixture_session],
      faults = fs, now = 5, warnings = [], calls = []\<rparr>"




text \<open>The paths that a list of system calls tried to remove, in order.\<close>

fun unlinks :: "syscall list \<Rightarrow> string list" where
  "unlinks [] = []"
| "unlinks (Unlink p # cs) = p # unlinks cs"
| "unlinks (c # cs) = unlinks cs"

section \<open>Template engine: truthiness\<close>

fun isTruthy :: "jsval \<Rightarrow> bool" where
  "isTruthy v =
     (if v = Null \<or> v = Undefined then False
      else if v = Bool False \<or> v = Num 0 \<or> v = Str [] then False
      else if (case v of Arr xs \<Rightarrow> length xs = 0 | _ \<Rightarrow> False) then False
      else True)"


section \<open>Template engine: tokens\<close>

datatype tokenType = TEXT | VARIABLE | IF_START | IF_END | FOREACH_START | FOREACH_END | ESCAPE

record token =
  tok_type :: tokenType
  tok_value :: string
  tok_position :: nat

definition mk_token :: "tokenType \<Rightarrow> string \<Rightarrow> nat \<Rightarrow> token" where
  "mk_token ty v p = \<lparr>tok_type = ty, tok_value = v, tok_position = p\<rparr>"

definition tokenType_name :: "tokenType \<Rightarrow> string" where
  "tokenType_name ty =
     (case ty of TEXT \<Rightarrow> ''TEXT'' | VARIABLE \<Rightarrow> ''VARIABLE'' | IF_START \<Rightarrow> ''IF_START''
               | IF_END \<Rightarrow> ''IF_END'' | FOREACH_START \<Rightarrow> ''FOREACH_START''
               | FOREACH_END \<Rightarrow> ''FOREACH_END'' | ESCAPE \<Rightarrow> ''ESCAPE'')"

text \<open>\<open>s.indexOf(c)\<close>, with \<open>None\<close> for -1.\<close>

fun index_of_char :: "char \<Rightarrow> string \<Rightarrow> nat option" where
  "index_of_char c [] = None"
| "index_of_char c (x # xs) = (if x = c then Some 0 else map_option Suc (index_of_char c xs))"

text \<open>The token for the trimmed text between \<open>${\<close> and \<open>}\<close>.\<close>

definition expression_token :: "string \<Rightarrow> nat \<Rightarrow> token" where
  "expression_token expression position =
     (if startsWith expression ''if '' then mk_token IF_START (trim (drop 3 expression)) position
      else if expression = ''endif'' then mk_token IF_END [] position
      else if startsWith expression ''foreach ''
        then mk_token FOREACH_START (trim (drop 8 expression)) position
      else if expression = ''endforeach'' then mk_token FOREACH_END [] position
      else mk_token VARIABLE expression position)"

definition flush_text :: "string \<Rightarrow> nat \<Rightarrow> token list \<Rightarrow> token list" where
  "flush_text textBuffer position tokens =
     (if textBuffer \<noteq> [] then tokens @ [mk_token TEXT textBuffer position] else tokens)"

text \<open>
  The loop of \<open>tokenize\<close>. \<open>rest\<close> is the template from \<open>position\<close> on, so
  \<open>template.substring(position, position + n)\<close> is \<open>take n rest\<close>, and
  \<open>template.indexOf('}', position + 2)\<close> is \<open>position + 2 + k\<close> for the index \<open>k\<close> of the
  first \<open>}\<close> in \<open>drop 2 rest\<close>. The escape sequence is a backslash before \<open>${\<close>.
\<close>

function tokenize_from :: "string \<Rightarrow> nat \<Rightarrow> string \<Rightarrow> token list \<Rightarrow> thrown + token list" where
  "tokenize_from rest position textBuffer tokens =
     (if rest = [] then Inr (flush_text textBuffer position tokens)
      else if take 3 rest = CHR 0x5C # ''${''
        then tokenize_from (drop 3 rest) (position + 3) (textBuffer @ ''${'') tokens
      else if take 2 rest = ''${''
        then (case index_of_char CHR ''}'' (drop 2 rest) of
                None \<Rightarrow>
                  Inl (ErrorObj TemplateError
                         (''Unclosed template expression at position '' @ show_nat position))
              | Some k \<Rightarrow>
                  tokenize_from (drop (k + 3) rest) (position + k + 3) []
                    (flush_text textBuffer position tokens
                       @ [expression_token (trim (take k (drop 2 rest))) position]))
      else tokenize_from (tl rest) (position + 1) (textBuffer @ [hd rest]) tokens)"
  by pat_completeness auto
termination
  by (relation "measure (\<lambda>(rest, position, textBuffer, tokens). length rest)") auto

declare tokenize_from.simps [simp del]

definition tokenize :: "string \<Rightarrow> thrown + token list" where
  "tokenize templ = tokenize_from templ 0 [] []"

section \<open>Template engine: the syntax tree\<close>

datatype astNode =
    TextNode string
  | VariableNode string "string list"
  | ConditionalNode string "astNode list" "astNode list option"
  | LoopNode string string "astNode list"

text \<open>The table of built-in filters, by name. It is a parameter of the engine's model:
  nothing proved here depends on what the table holds.\<close>

type_synonym filterTable = "string \<Rightarrow> (jsval \<Rightarrow> string list \<Rightarrow> string) option"

definition parseVariable :: "filterTable \<Rightarrow> string \<Rightarrow> thrown + astNode" where
  "parseVariable F expression =
     (let parts = map trim (split_on CHR ''|'' expression);
          path = hd parts;
          filters = tl parts
      in (case List.find (\<lambda>f. F (trim (hd (split_on CHR ''('' f))) = None) filters of
            Some f \<Rightarrow>
              Inl (ErrorObj TemplateError
                     (''Unknown filter: '' @ trim (hd (split_on CHR ''('' f))))
          | None \<Rightarrow> Inr (VariableNode path filters)))"

definition is_word :: "char \<Rightarrow> bool" where
  "is_word c =
     (let n = (of_char c :: nat)
      in (48 \<le> n \<and> n \<le> 57) \<or> (65 \<le> n \<and> n \<le> 90) \<or> n = 95 \<or> (97 \<le> n \<and> n \<le> 122))"

definition is_line_terminator :: "char \<Rightarrow> bool" where
  "is_line_terminator c = (of_char c \<in> {10, 13 :: nat})"

text \<open>The regular expression of \<open>parseLoop\<close>, \<open>^(\w+)\s+in\s+(.+)$\<close>: a maximal run of
  word characters, white space, \<open>in\<close>, white space, and a non-empty remainder without
  line terminators. Only when nothing follows the second white space can the remainder
  be its last character.\<close>

definition match_foreach :: "string \<Rightarrow> (string \<times> string) option" where
  "match_foreach s =
     (let itemName = takeWhile is_word s;
          r1 = dropWhile is_word s;
          ws1 = takeWhile is_space r1;
          r2 = dropWhile is_space r1;
          r3 = drop 2 r2;
          ws2 = takeWhile is_space r3;
          r4 = dropWhile is_space r3
      in if itemName = [] \<or> ws1 = [] \<or> \<not> startsWith r2 ''in'' \<or> ws2 = [] then None
         else if r4 \<noteq> []
           then (if \<exists>c \<in> set r4. is_line_terminator c then None else Some (itemName, r4))
         else if 2 \<le> length ws2 \<and> \<not> is_line_terminator (last ws2)
           then Some (itemName, [last ws2])
         else None)"

text \<open>
  The parsers work on the tokens from the current index on and return the node with the
  tokens after it (the source returns the next index). A block parser is only entered
  at its opening token. After a nested block the source continues at the index the
  nested parser returned, which is always further on; the model checks that before it
  continues, which is what makes the recursion well-founded, and
  \<open>parse_advances\<close> below shows that the check never fails.
\<close>

definition stuck :: thrown where
  "stuck = ErrorObj PlainError ''nested parser did not advance''"

function parseConditional :: "filterTable \<Rightarrow> token list \<Rightarrow> thrown + (astNode \<times> token list)"
and parseConditional_loop ::
  "filterTable \<Rightarrow> string \<Rightarrow> token list \<Rightarrow> astNode list \<Rightarrow> thrown + (astNode \<times> token list)"
and parseLoop :: "filterTable \<Rightarrow> token list \<Rightarrow> thrown + (astNode \<times> token list)"
and parseLoop_loop ::
  "filterTable \<Rightarrow> string \<Rightarrow> string \<Rightarrow> token list \<Rightarrow> astNode list \<Rightarrow> thrown + (astNode \<times> token list)"
where
  "parseConditional F tokens =
     (case tokens of
        [] \<Rightarrow> Inl (ErrorObj PlainError ''Cannot read properties of undefined'')
      | start # rest \<Rightarrow> parseConditional_loop F (tok_value start) rest [])"
| "parseConditional_loop F cond tokens trueBranch =
     (case tokens of
        [] \<Rightarrow> Inl (ErrorObj TemplateError ''Unclosed conditional block'')
      | tk # rest \<Rightarrow>
          if tok_type tk = IF_END then Inr (ConditionalNode cond trueBranch None, rest)
          else if tok_type tk = IF_START
            then (case parseConditional F (tk # rest) of
                    Inl e \<Rightarrow> Inl e
                  | Inr (node, rest') \<Rightarrow>
                      if length rest' < length (tk # rest)
                      then parseConditional_loop F cond rest' (trueBranch @ [node])
                      else Inl stuck)
          else if tok_type tk = FOREACH_START
            then (case parseLoop F (tk # rest) of
                    Inl e \<Rightarrow> Inl e
                  | Inr (node, rest') \<Rightarrow>
                      if length rest' < length (tk # rest)
                      then parseConditional_loop F cond rest' (trueBranch @ [node])
                      else Inl stuck)
          else if tok_type tk = TEXT
            then parseConditional_loop F cond rest (trueBranch @ [TextNode (tok_value tk)])
          else if tok_type tk = VARIABLE
            then (case parseVariable F (tok_value tk) of
                    Inl e \<Rightarrow> Inl e
                  | Inr node \<Rightarrow> parseConditional_loop F cond rest (trueBranch @ [node]))
          else Inl (ErrorObj TemplateError
                      (''Unexpected token in conditional at position ''
                         @ show_nat (tok_position tk))))"
| "parseLoop F tokens =
     (case tokens of
        [] \<Rightarrow> Inl (ErrorObj PlainError ''Cannot read properties of undefined'')
      | start # rest \<Rightarrow>
          (case match_foreach (tok_value start) of
             None \<Rightarrow>
               Inl (ErrorObj TemplateError
                      (''Invalid foreach syntax: '' @ tok_value start @ ''. Expected: ''
                         @ [CHR 0x22] @ ''item in collection'' @ [CHR 0x22]))
           | Some (itemName, collectionPath) \<Rightarrow>
               parseLoop_loop F itemName collectionPath rest []))"
| "parseLoop_loop F itemName collectionPath tokens body =
     (case tokens of
        [] \<Rightarrow> Inl (ErrorObj TemplateError ''Unclosed foreach block'')
      | tk # rest \<Rightarrow>
          if tok_type tk = FOREACH_END then Inr (LoopNode itemName collectionPath body, rest)
          else if tok_type tk = IF_START
            then (case parseConditional F (tk # rest) of
                    Inl e \<Rightarrow> Inl e
                  | Inr (node, rest') \<Rightarrow>
                      if length rest' < length (tk # rest)
                      then parseLoop_loop F itemName collectionPath rest' (body @ [node])
                      else Inl stuck)
          else if tok_type tk = FOREACH_START
            then (case parseLoop F (tk # rest) of
                    Inl e \<Rightarrow> Inl e
                  | Inr (node, rest') \<Rightarrow>
                      if length rest' < length (tk # rest)
                      then parseLoop_loop F itemName collectionPath rest' (body @ [node])
                      else Inl stuck)
          else if tok_type tk = TEXT
            then parseLoop_loop F itemName collectionPath rest (body @ [TextNode (tok_value tk)])
          else if tok_type tk = VARIABLE
            then (case parseVariable F (tok_value tk) of
                    Inl e \<Rightarrow> Inl e
                  | Inr node \<Rightarrow> parseLoop_loop F itemName collectionPath rest (body @ [node]))
          else Inl (ErrorObj TemplateError
                      (''Unexpected token in loop at position '' @ show_nat (tok_position tk))))"
  by pat_completeness auto
termination
  apply (relation "measure
     (\<lambda>x. case x of
        Inl (Inl (F, tokens)) \<Rightarrow> 2 * length tokens
      | Inl (Inr (F, cond, tokens, acc)) \<Rightarrow> 2 * length tokens + 1
      | Inr (Inl (F, tokens)) \<Rightarrow> 2 * length tokens
      | Inr (Inr (F, itemName, collectionPath, tokens, acc)) \<Rightarrow> 2 * length tokens + 1)")
  apply simp_all
  done

declare parseConditional.simps [simp del] parseConditional_loop.simps [simp del]
  parseLoop.simps [simp del] parseLoop_loop.simps [simp del]

text \<open>The loop of \<open>buildAST\<close> over the top-level tokens.\<close>

function buildAST_loop :: "filterTable \<Rightarrow> token list \<Rightarrow> astNode list \<Rightarrow> thrown + astNode list" where
  "buildAST_loop F tokens nodes =
     (case tokens of
        [] \<Rightarrow> Inr nodes
      | tk # rest \<Rightarrow>
          if tok_type tk = TEXT then buildAST_loop F rest (nodes @ [TextNode (tok_value tk)])
          else if tok_type tk = VARIABLE
            then (case parseVariable F (tok_value tk) of
                    Inl e \<Rightarrow> Inl e
                  | Inr node \<Rightarrow> buildAST_loop F rest (nodes @ [node]))
          else if tok_type tk = IF_START
            then (case parseConditional F (tk # rest) of
                    Inl e \<Rightarrow> Inl e
                  | Inr (node, rest') \<Rightarrow>
                      if length rest' < length (tk # rest)
                      then buildAST_loop F rest' (nodes @ [node])
                      else Inl stuck)
          else if tok_type tk = FOREACH_START
            then (case parseLoop F (tk # rest) of
                    Inl e \<Rightarrow> Inl e
                  | Inr (node, rest') \<Rightarrow>
                      if length rest' < length (tk # rest)
                      then buildAST_loop F rest' (nodes @ [node])
                      else Inl stuck)
          else Inl (ErrorObj TemplateError
                      (''Unexpected token '' @ tokenType_name (tok_type tk) @ '' at position ''
                         @ show_nat (tok_position tk))))"
  by pat_completeness auto
termination
  by (relation "measure (\<lambda>(F, tokens, nodes). length tokens)") auto

declare buildAST_loop.simps [simp del]

definition buildAST :: "filterTable \<Rightarrow> token list \<Rightarrow> thrown + astNode list" where
  "buildAST F tokens = buildAST_loop F tokens []"

text \<open>\<open>parse\<close>: the cache of compiled templates only saves work and is left out.\<close>

definition parse :: "filterTable \<Rightarrow> string \<Rightarrow> thrown + astNode list" where
  "parse F templ =
     (case tokenize templ of
        Inl e \<Rightarrow> Inl e
      | Inr tokens \<Rightarrow> buildAST F tokens)"

section \<open>Template engine: evaluation\<close>

text \<open>\<open>Object.prototype.hasOwnProperty.call(value, part)\<close> for a value that is an
  object.\<close>

fun has_own :: "jsval \<Rightarrow> string \<Rightarrow> bool" where
  "has_own (Obj kvs) key = (map_of kvs key \<noteq> None)"
| "has_own (Arr xs) key = (key = ''length'' \<or> is_index key (length xs))"
| "has_own v key = False"

fun resolvePath_parts :: "string list \<Rightarrow> jsval \<Rightarrow> jsval" where
  "resolvePath_parts [] v = v"
| "resolvePath_parts (part # parts) v =
     (if v = Null \<or> v = Undefined then Undefined
      else if typeof v = ''object'' \<and> has_own v part
        then resolvePath_parts parts (get_prop v part)
      else Undefined)"

definition resolvePath :: "string \<Rightarrow> obj \<Rightarrow> jsval" where
  "resolvePath path context =
     (if path = ''.'' then Obj context
      else resolvePath_parts (split_on CHR ''.'' path) (Obj context))"

text \<open>The regular expression of a filter expression, \<open>^(\w+)(?:\(([^)]*)\))?$\<close>: the
  filter name, and the text between the parentheses if there are any.\<close>

definition match_filter :: "string \<Rightarrow> (string \<times> string option) option" where
  "match_filter s =
     (let filterName = takeWhile is_word s;
          r = dropWhile is_word s
      in if filterName = [] then None
         else if r = [] then Some (filterName, None)
         else if hd r = CHR ''('' \<and> dropWhile (\<lambda>c. c \<noteq> CHR '')'') (tl r) = '')''
           then Some (filterName, Some (takeWhile (\<lambda>c. c \<noteq> CHR '')'') (tl r)))
         else None)"

fun apply_filters :: "filterTable \<Rightarrow> string list \<Rightarrow> jsval \<Rightarrow> thrown + jsval" where
  "apply_filters F [] v = Inr v"
| "apply_filters F (filterExpr # others) v =
     (case match_filter filterExpr of
        None \<Rightarrow> Inl (ErrorObj TemplateError (''Invalid filter syntax: '' @ filterExpr))
      | Some (filterName, argsStr) \<Rightarrow>
          (case F filterName of
             None \<Rightarrow> Inl (ErrorObj TemplateError (''Unknown filter: '' @ filterName))
           | Some f \<Rightarrow>
               apply_filters F others
                 (Str (f v (case argsStr of
                              Some (c # cs) \<Rightarrow> map trim (split_on CHR '','' (c # cs))
                            | _ \<Rightarrow> [])))))"

definition evaluateVariable :: "filterTable \<Rightarrow> string \<Rightarrow> string list \<Rightarrow> obj \<Rightarrow> thrown + string" where
  "evaluateVariable F path filters context =
     (let v0 = resolvePath path context;
          v1 = (if filters \<noteq> [] \<and> (v0 = Undefined \<or> v0 = Null) then Str [] else v0)
      in (case apply_filters F filters v1 of
            Inl e \<Rightarrow> Inl e
          | Inr v \<Rightarrow> Inr (if v = Undefined \<or> v = Null then [] else String v)))"

text \<open>
  \<open>evaluate\<close> with \<open>evaluateConditional\<close> and \<open>evaluateLoop\<close>, which take the fields
  of their node. \<open>evaluateNode\<close> is the \<open>switch\<close> on the node type in the loop of
  \<open>evaluate\<close>; \<open>evaluateLoop_items\<close> is the loop of \<open>evaluateLoop\<close> over the
  collection, each item bound to the loop variable in a copy of the context.
\<close>

function evaluate :: "filterTable \<Rightarrow> astNode list \<Rightarrow> obj \<Rightarrow> thrown + string"
and evaluateNode :: "filterTable \<Rightarrow> astNode \<Rightarrow> obj \<Rightarrow> thrown + string"
and evaluateConditional ::
  "filterTable \<Rightarrow> string \<Rightarrow> astNode list \<Rightarrow> astNode list option \<Rightarrow> obj \<Rightarrow> thrown + string"
and evaluateLoop :: "filterTable \<Rightarrow> string \<Rightarrow> string \<Rightarrow> astNode list \<Rightarrow> obj \<Rightarrow> thrown + string"
and evaluateLoop_items ::
  "filterTable \<Rightarrow> string \<Rightarrow> astNode list \<Rightarrow> obj \<Rightarrow> jsval list \<Rightarrow> thrown + string"
where
  "evaluate F [] context = Inr []"
| "evaluate F (node # nodes) context =
     (case evaluateNode F node context of
        Inl e \<Rightarrow> Inl e
      | Inr piece \<Rightarrow>
          (case evaluate F nodes context of
             Inl e \<Rightarrow> Inl e
           | Inr result \<Rightarrow> Inr (piece @ result)))"
| "evaluateNode F (TextNode v) context = Inr v"
| "evaluateNode F (VariableNode path filters) context = evaluateVariable F path filters context"
| "evaluateNode F (ConditionalNode cond trueBranch falseBranch) context =
     evaluateConditional F cond trueBranch falseBranch context"
| "evaluateNode F (LoopNode itemName collectionPath body) context =
     evaluateLoop F itemName collectionPath body context"
| "evaluateConditional F cond trueBranch falseBranch context =
     (if isTruthy (resolvePath cond context) then evaluate F trueBranch context
      else (case falseBranch of
              Some nodes \<Rightarrow> evaluate F nodes context
            | None \<Rightarrow> Inr []))"
| "evaluateLoop F itemName collectionPath body context =
     (case resolvePath collectionPath context of
        Arr xs \<Rightarrow> evaluateLoop_items F itemName body context xs
      | _ \<Rightarrow> Inr [])"
| "evaluateLoop_items F itemName body context [] = Inr []"
| "evaluateLoop_items F itemName body context (item # others) =
     (case evaluate F body (AList.update itemName item context) of
        Inl e \<Rightarrow> Inl e
      | Inr piece \<Rightarrow>
          (case evaluateLoop_items F itemName body context others of
             Inl e \<Rightarrow> Inl e
           | Inr result \<Rightarrow> Inr (piece @ result)))"
  by pat_completeness auto
termination
  apply (relation "inv_image (less_than <*lex*> less_than)
     (\<lambda>x. case x of
        Inl (Inl (F, nodes, c)) \<Rightarrow> (2 * size_list size nodes, 0)
      | Inl (Inr (F, node, c)) \<Rightarrow> (2 * size node, 0)
      | Inr (Inl (F, cond, tb, fb, c)) \<Rightarrow>
          (2 * (size_list size tb + size_option (size_list size) fb) + 1, 0)
      | Inr (Inr (Inl (F, i, cp, body, c))) \<Rightarrow> (2 * size_list size body + 1, 0)
      | Inr (Inr (Inr (F, i, body, c, xs))) \<Rightarrow> (2 * size_list size body, length xs))")
  apply (rule wf_inv_image, rule wf_lex_prod, rule wf_less_than, rule wf_less_than)
  apply simp_all
  done

definition render :: "filterTable \<Rightarrow> string \<Rightarrow> obj \<Rightarrow> thrown + string" where
  "render F templ context =
     (case parse F templ of
        Inl e \<Rightarrow> Inl e
      | Inr ast \<Rightarrow> evaluate F ast context)"

section \<open>Template engine: paths that resolve\<close>

text \<open>
  A dotted path resolves in a context when every part, in turn, names an own property of
  the value reached so far, starting from the context; the path \<open>.\<close> always resolves
  (it is the context itself). This is the notion the statements about conditions are
  phrased with; \<open>resolvePath\<close> itself is defined above, from its source.
\<close>

fun resolvable_parts :: "string list \<Rightarrow> jsval \<Rightarrow> bool" where
  "resolvable_parts [] v = True"
| "resolvable_parts (part # parts) v =
     (v \<noteq> Null \<and> v \<noteq> Undefined \<and> typeof v = ''object'' \<and> has_own v part
      \<and> resolvable_parts parts (get_prop v part))"

definition resolvable :: "string \<Rightarrow> obj \<Rightarrow> bool" where
  "resolvable path context =
     (path = ''.'' \<or> resolvable_parts (split_on CHR ''.'' path) (Obj context))"

text \<open>An engine without filters, for the examples.\<close>

definition no_filters :: filterTable where
  "no_filters = (\<lambda>name. None)"

section \<open>Error classification, as specified\<close>

text \<open>The spec's reading of the classification: a case-insensitive substring match on
  the message, first match wins.\<close>

definition contains_ci :: "string \<Rightarrow> string \<Rightarrow> bool" where
  "contains_ci message w = (\<exists>a b. toLowerCase message = a @ w @ b)"

definition classify_message :: "string \<Rightarrow> retryErrorPattern" where
  "classify_message m =
     (if contains_ci m ''timeout'' then timeout
      else if contains_ci m ''network'' \<or> contains_ci m ''connection'' then network_error
      else if contains_ci m ''rate limit'' then rate_limit
      else if contains_ci m ''server error'' \<or> contains_ci m ''500'' then server_error
      else if contains_ci m ''auth'' then authentication_error
      else if contains_ci m ''validation'' then validation_error
      else if contains_ci m ''unavailable'' \<or> contains_ci m ''busy'' then resource_unavailable
      else temporary_failure)"

section \<open>Facts about the string helpers\<close>

lemma startsWith_iff: "startsWith s p = (\<exists>b. s = p @ b)"
  by (induction s p rule: startsWith.induct) auto

lemma str_includes_iff: "str_includes s p = (\<exists>a b. s = a @ p @ b)"
proof (induction s)
  case Nil
  then show ?case by auto
next
  case (Cons c cs)
  show ?case
  proof
    assume "str_includes (c # cs) p"
    then consider "startsWith (c # cs) p" | "str_includes cs p" by auto
    then show "\<exists>a b. c # cs = a @ p @ b"
    proof cases
      case 1
      then obtain b where "c # cs = p @ b" by (auto simp: startsWith_iff)
      then have "c # cs = [] @ p @ b" by simp
      then show ?thesis by blast
    next
      case 2
      then obtain a b where "cs = a @ p @ b" using Cons.IH by auto
      then have "c # cs = (c # a) @ p @ b" by simp
      then show ?thesis by blast
    qed
  next
    assume "\<exists>a b. c # cs = a @ p @ b"
    then obtain a b where ab: "c # cs = a @ p @ b" by blast
    show "str_includes (c # cs) p"
    proof (cases a)
      case Nil
      then have "startsWith (c # cs) p" using ab by (auto simp: startsWith_iff)
      then show ?thesis by simp
    next
      case (Cons x xs)
      then have "cs = xs @ p @ b" using ab by simp
      then have "str_includes cs p" using Cons.IH by blast
      then show ?thesis by simp
    qed
  qed
qed

text \<open>Evaluating \<open>toLowerCase\<close> on a literal.\<close>

lemmas lower_eval = toLowerCase_def lower_char_def char_of_def bit_Suc_0_iff

section \<open>The dispatch stays clear of the retry wrapper\<close>

lemma runCommand_quiet: "runCommand env cmd ex tr = (r, tr') \<Longrightarrow> quiet tr tr'"
  by (auto simp: runCommand_def quiet_def Let_def split: processOutcome.splits if_splits)

lemma executeAIPrompt_quiet: "executeAIPrompt env step c tr = (r, tr') \<Longrightarrow> quiet tr tr'"
  by (auto simp: executeAIPrompt_def split: sum.splits if_splits)

lemma executeValidation_quiet: "executeValidation env step c tr = (r, tr') \<Longrightarrow> quiet tr tr'"
  by (auto simp: executeValidation_def split: sum.splits if_splits)

lemma executeScript_quiet: "executeScript env step c tr = (r, tr') \<Longrightarrow> quiet tr tr'"
  by (auto simp: executeScript_def split: sum.splits prod.splits if_splits dest: runCommand_quiet)

lemma dispatch_quiet:
  "executeStepByType env step c tr = (r1, tr') \<Longrightarrow> quiet tr tr'"
  "executeLoop env step c tr = (r2, tr') \<Longrightarrow> quiet tr tr'"
  "executeLoop_items env subs c n i xs its tr = (r3, tr') \<Longrightarrow> quiet tr tr'"
  "executeConditional env step c tr = (r4, tr') \<Longrightarrow> quiet tr tr'"
  "executeSubSteps env subs c acc tr = (r5, tr') \<Longrightarrow> quiet tr tr'"
proof (induction env step c tr and env step c tr and env subs c n i xs its tr and env step c tr and env subs c acc tr
       arbitrary: r1 tr' and r2 tr' and r3 tr' and r4 tr' and r5 tr'
       rule: executeStepByType_executeLoop_executeLoop_items_executeConditional_executeSubSteps.induct)
  case (1 env sid ty ag tm cm cd ss it rp ee "context" tr)
  then show ?case
    by (cases ty) (auto dest: executeAIPrompt_quiet executeScript_quiet executeValidation_quiet)
next
  case (2 env sid ty ag tm cm cd ss it rp ee "context" tr)
  then show ?case
    by (fastforce split: option.splits jsval.splits prod.splits sum.splits if_splits)
next
  case (3 env subs "context" n i iterations tr)
  then show ?case by simp
next
  case (4 env subs "context" n i item rest iterations tr)
  then show ?case
    by (fastforce split: prod.splits sum.splits intro: quiet_trans)
next
  case (5 env sid ty ag tm cm cd ss it rp ee "context" tr)
  then show ?case
    by (fastforce split: option.splits prod.splits sum.splits if_splits)
next
  case (6 env "context" acc tr)
  then show ?case by simp
next
  case (7 env subStep rest "context" acc tr)
  then show ?case
    by (fastforce split: prod.splits sum.splits if_splits intro: quiet_trans)
qed



section \<open>The dispatch never reads a retry policy\<close>

lemma executeAIPrompt_erase:
  "executeAIPrompt env (erase rp' step) c tr = executeAIPrompt env step c tr"
  by (cases step) (simp add: executeAIPrompt_def split: sum.splits prod.splits)

lemma executeScript_erase:
  "executeScript env (erase rp' step) c tr = executeScript env step c tr"
  by (cases step) (simp add: executeScript_def split: sum.splits prod.splits)

lemma executeValidation_erase:
  "executeValidation env (erase rp' step) c tr = executeValidation env step c tr"
  by (cases step) (simp add: executeValidation_def split: sum.splits prod.splits)

lemmas leaf_erase = executeAIPrompt_erase executeScript_erase executeValidation_erase

lemma dispatch_erase:
  "executeStepByType env (erase rp' step) c tr = executeStepByType env step c tr"
  "executeLoop env (erase rp' step) c tr = executeLoop env step c tr"
  "executeLoop_items env (map (erase None) subs) c n i xs its tr = executeLoop_items env subs c n i xs its tr"
  "executeConditional env (erase rp' step) c tr = executeConditional env step c tr"
  "executeSubSteps env (map (erase None) subs) c acc tr = executeSubSteps env subs c acc tr"
proof (induction env step c tr and env step c tr and env subs c n i xs its tr and env step c tr and env subs c acc tr
       arbitrary: rp' and rp' and  and rp' and
       rule: executeStepByType_executeLoop_executeLoop_items_executeConditional_executeSubSteps.induct)
  case (1 env sid ty ag tm cm cd ss it rp ee c tr)
  show ?case
    using 1 leaf_erase [of env rp' "Step sid ty ag tm cm cd ss it rp ee" c tr]
    by (cases ty) auto
next
  case (2 env sid ty ag tm cm cd ss it rp ee c tr)
  then show ?case
    by (auto split: option.splits jsval.splits prod.splits sum.splits if_splits)
next
  case (3 env subs c n i iterations tr)
  then show ?case by simp
next
  case (4 env subs c n i item rest iterations tr)
  then show ?case
    by (auto split: prod.splits sum.splits)
next
  case (5 env sid ty ag tm cm cd ss it rp ee c tr)
  then show ?case
    by (auto split: option.splits prod.splits sum.splits if_splits)
next
  case (6 env c acc tr)
  then show ?case by simp
next
  case (7 env subStep rest c acc tr)
  then show ?case
    by (auto split: prod.splits sum.splits if_splits)
qed


lemma erase_fields [simp]:
  "step_id (erase rp' step) = step_id step" "retryPolicy (erase rp' step) = rp'"
  by (cases step; simp)+

lemma stepContext_erase [simp]:
  "stepContext ctx sid (erase rp' step) k = stepContext ctx sid step k"
  by (simp add: stepContext_def)

lemma executeStep_erase:
  "executeStep env (erase (retryPolicy step) step) ctx sid k tr = executeStep env step ctx sid k tr"
proof (induction env step ctx sid k tr rule: executeStep.induct)
  case (1 env step ctx sid k tr)
  show ?case
  proof (cases "executeStepByType env step (stepContext ctx sid step k) (tr @ [Attempt (step_id step) k])")
    case (Pair r tr')
    show ?thesis
    proof (cases r)
      case (Inr res)
      then show ?thesis
        using Pair
        by (simp add: executeStep.simps [of env "erase (retryPolicy step) step"]
              executeStep.simps [of env step] dispatch_erase(1))
    next
      case (Inl e)
      show ?thesis
      proof (cases "shouldRetry (retryPolicy step) e k")
        case True
        from "1.IH" [OF Pair [symmetric] Inl True] show ?thesis
          using Pair Inl True
          by (simp add: executeStep.simps [of env "erase (retryPolicy step) step" ctx sid k]
                executeStep.simps [of env step ctx sid k] dispatch_erase(1))
      next
        case False
        then show ?thesis
          using Pair Inl
          by (simp add: executeStep.simps [of env "erase (retryPolicy step) step"]
                executeStep.simps [of env step] dispatch_erase(1))
      qed
    qed
  qed
qed

section \<open>Retry ceiling\<close>





lemma fixture_fails:
  "executeStepByType fixture_env failing_step sc tr0 =
     (Inl (ErrorObj ValidationError ''Validation failed: false''), tr0)"
  by (simp add: failing_step_def fixture_env_def executeValidation_def missing_def or_else_def)



section \<open>Child steps bypass the retry wrapper\<close>

text \<open>
  C9. The children of a loop or conditional step run through the dispatch
  \<open>executeStepByType\<close>, not through the retry wrapper \<open>executeStep\<close>:
  \<^item> the dispatch gives the same outcome when every retry policy in the step tree is
    removed, and the wrapper gives the same outcome when the policies of all nested
    steps are removed (only the enclosing step's own policy is read);
  \<^item> no attempt of the wrapper and no backoff sleep happens inside a dispatch;
  \<^item> a child that throws ends the loop over the children with its error at once, an
    iteration that throws ends the loop over the items, and the enclosing loop or
    conditional step throws that same error.
\<close>

theorem children_bypass_retry:
  "executeStepByType env (drop_policies step) c tr = executeStepByType env step c tr
   \<and> executeStep env (drop_child_policies step) ctx sid k tr = executeStep env step ctx sid k tr
   \<and> (executeStepByType env step c tr = (r, tr') \<longrightarrow>
        attempts tr' = attempts tr \<and> sleeps tr' = sleeps tr)
   \<and> (executeStepByType env child c tr = (Inl e, tr') \<longrightarrow>
        executeSubSteps env (child # rest) c acc tr = (Inl e, tr'))
   \<and> (executeSubSteps env subs (iterationContext c item i n) [] tr = (Inl e, tr') \<longrightarrow>
        executeLoop_items env subs c n i (item # later) its tr = (Inl e, tr'))
   \<and> (step_type step = Loop \<and> steps step = Some subs \<and> \<not> missing (items step)
        \<and> resolveValue (or_else (items step) []) (variables c) = Arr xs
        \<and> executeLoop_items env subs c (length xs) 0 xs [] tr = (Inl e, tr') \<longrightarrow>
        executeStepByType env step c tr = (Inl e, tr'))
   \<and> (step_type step = Conditional \<and> steps step = Some subs \<and> \<not> missing (condition step)
        \<and> engine_render env (or_else (condition step) []) (variables c) = Inr cond
        \<and> evaluateCondition env cond (variables c) = Inr True
        \<and> executeSubSteps env subs c [] tr = (Inl e, tr') \<longrightarrow>
        executeStepByType env step c tr = (Inl e, tr'))"
proof -
  have 1: "executeStepByType env (drop_policies step) c tr = executeStepByType env step c tr"
    by (simp add: drop_policies_def dispatch_erase(1))
  have 2: "executeStep env (drop_child_policies step) ctx sid k tr = executeStep env step ctx sid k tr"
    by (simp add: drop_child_policies_def executeStep_erase)
  have 3: "executeStepByType env step c tr = (r, tr') \<longrightarrow>
        attempts tr' = attempts tr \<and> sleeps tr' = sleeps tr"
    using dispatch_quiet(1) [of env step c tr r tr'] by (simp add: quiet_def)
  have 4: "executeStepByType env child c tr = (Inl e, tr') \<longrightarrow>
        executeSubSteps env (child # rest) c acc tr = (Inl e, tr')"
    by simp
  have 5: "executeSubSteps env subs (iterationContext c item i n) [] tr = (Inl e, tr') \<longrightarrow>
        executeLoop_items env subs c n i (item # later) its tr = (Inl e, tr')"
    by simp
  have 6: "step_type step = Loop \<and> steps step = Some subs \<and> \<not> missing (items step)
        \<and> resolveValue (or_else (items step) []) (variables c) = Arr xs
        \<and> executeLoop_items env subs c (length xs) 0 xs [] tr = (Inl e, tr') \<longrightarrow>
        executeStepByType env step c tr = (Inl e, tr')"
    by (cases step) simp
  have 7: "step_type step = Conditional \<and> steps step = Some subs \<and> \<not> missing (condition step)
        \<and> engine_render env (or_else (condition step) []) (variables c) = Inr cond
        \<and> evaluateCondition env cond (variables c) = Inr True
        \<and> executeSubSteps env subs c [] tr = (Inl e, tr') \<longrightarrow>
        executeStepByType env step c tr = (Inl e, tr')"
    by (cases step) simp
  show ?thesis using 1 2 3 4 5 6 7 by blast
qed

theorem children_bypass_retry_witness:
  "executeSubSteps fixture_env [failing_step]
       (stepContext fixture_context ''session-123'' guard_step 0) [] [Attempt ''guard'' 0]
     = (Inl (ErrorObj ValidationError ''Validation failed: false''), [Attempt ''guard'' 0])
   \<and> executeStepByType fixture_env guard_step
       (stepContext fixture_context ''session-123'' guard_step 0) [Attempt ''guard'' 0]
     = (Inl (ErrorObj ValidationError ''Validation failed: false''), [Attempt ''guard'' 0])
   \<and> executeStep fixture_env guard_step fixture_context ''session-123'' 0 []
     = (Inl (ErrorObj ValidationError ''Validation failed: false''), [Attempt ''guard'' 0])
   \<and> executeStep fixture_env (drop_child_policies guard_step) fixture_context ''session-123'' 0 []
     = (Inl (ErrorObj ValidationError ''Validation failed: false''), [Attempt ''guard'' 0])"
proof -
  let ?sc = "stepContext fixture_context ''session-123'' guard_step 0"
  let ?E = "ErrorObj ValidationError ''Validation failed: false''"
  let ?tr = "[Attempt ''guard'' 0]"
  note inst = children_bypass_retry
      [where env = fixture_env and step = guard_step and c = ?sc and tr = ?tr
         and child = failing_step and e = ?E and tr' = ?tr and rest = "[]" and acc = "[]"
         and subs = "[failing_step]" and cond = "''true''"]
  note inst0 = children_bypass_retry
      [where env = fixture_env and step = guard_step and ctx = fixture_context
         and sid = "''session-123''" and k = 0 and tr = "[]"]
  have child: "executeStepByType fixture_env failing_step ?sc ?tr = (Inl ?E, ?tr)"
    by (rule fixture_fails)
  have a: "executeSubSteps fixture_env [failing_step] ?sc [] ?tr = (Inl ?E, ?tr)"
    using inst child by blast
  have pre: "step_type guard_step = Conditional" "steps guard_step = Some [failing_step]"
    "\<not> missing (condition guard_step)"
    "engine_render fixture_env (or_else (condition guard_step) []) (variables ?sc) = Inr ''true''"
    "evaluateCondition fixture_env ''true'' (variables ?sc) = Inr True"
    by (simp_all add: guard_step_def missing_def or_else_def fixture_env_def)
  have b: "executeStepByType fixture_env guard_step ?sc ?tr = (Inl ?E, ?tr)"
    using inst pre a by blast
  have id: "step_id guard_step = ''guard''" "retryPolicy guard_step = None"
    by (simp_all add: guard_step_def)
  have c: "executeStep fixture_env guard_step fixture_context ''session-123'' 0 [] = (Inl ?E, ?tr)"
    by (simp add: executeStep.simps [of fixture_env guard_step] id b shouldRetry_def)
  have d: "executeStep fixture_env (drop_child_policies guard_step) fixture_context ''session-123'' 0 []
      = (Inl ?E, ?tr)"
    using inst0 c by simp
  show ?thesis using a b c d by blast
qed

section \<open>Facts about the file system calls\<close>

lemma enter_frame:
  "enter call w = (f, w1) \<Longrightarrow>
     files w1 = files w \<and> now w1 = now w \<and> warnings w1 = warnings w \<and> calls w1 = calls w @ [call]"
  by (auto simp: enter_def split: list.splits)

lemma fs_mkdir_frame:
  "fs_mkdir p w = (r, w1) \<Longrightarrow>
     files w1 = files w \<and> now w1 = now w \<and> warnings w1 = warnings w"
  by (auto simp: fs_mkdir_def split: prod.splits option.splits dest: enter_frame)

lemma mkdirs_frame:
  "mkdirs ds w = (r, w1) \<Longrightarrow>
     files w1 = files w \<and> now w1 = now w \<and> warnings w1 = warnings w"
proof (induction ds arbitrary: w)
  case Nil
  then show ?case by (simp add: mkdirs.simps)
next
  case (Cons d ds)
  then show ?case
    by (fastforce simp: mkdirs.simps split: prod.splits sum.splits dest: fs_mkdir_frame)
qed

lemma initialize_frame:
  "initialize w = (r, w1) \<Longrightarrow>
     files w1 = files w \<and> now w1 = now w \<and> warnings w1 = warnings w"
  by (auto simp: initialize_def split: prod.splits sum.splits dest: mkdirs_frame)

lemma fs_writeFile_frame:
  "fs_writeFile p c w = (r, w1) \<Longrightarrow>
     (\<forall>q. q \<noteq> p \<longrightarrow> files w1 q = files w q) \<and> now w1 = now w \<and> warnings w1 = warnings w
     \<and> calls w1 = calls w @ [WriteFile p]"
  by (auto simp: fs_writeFile_def split: prod.splits fault.splits dest: enter_frame)

lemma fs_writeFile_ok:
  "fs_writeFile p c w = (Inr u, w1) \<Longrightarrow> files w1 = (files w)(p \<mapsto> c)"
  by (auto simp: fs_writeFile_def split: prod.splits fault.splits dest: enter_frame)

lemma fs_rename_frame:
  "fs_rename a b w = (r, w1) \<Longrightarrow>
     (\<forall>q. q \<noteq> a \<and> q \<noteq> b \<longrightarrow> files w1 q = files w q) \<and> now w1 = now w \<and> warnings w1 = warnings w
     \<and> calls w1 = calls w @ [Rename a b]"
  by (auto simp: fs_rename_def split: prod.splits option.splits dest: enter_frame)

lemma fs_rename_fail:
  "fs_rename a b w = (Inl e, w1) \<Longrightarrow> files w1 = files w"
  by (auto simp: fs_rename_def split: prod.splits option.splits dest: enter_frame)

lemma fs_rename_ok:
  "fs_rename a b w = (Inr u, w1) \<Longrightarrow>
     \<exists>c. files w a = Some c \<and> files w1 = ((files w)(a := None))(b \<mapsto> c)"
  by (auto simp: fs_rename_def split: prod.splits option.splits dest: enter_frame)

lemma fs_unlink_frame:
  "fs_unlink p w = (r, w1) \<Longrightarrow>
     (\<forall>q. q \<noteq> p \<longrightarrow> files w1 q = files w q) \<and> now w1 = now w \<and> warnings w1 = warnings w
     \<and> calls w1 = calls w @ [Unlink p]"
  by (auto simp: fs_unlink_def split: prod.splits option.splits dest: enter_frame)

lemma fs_unlink_ok:
  "fs_unlink p w = (Inr u, w1) \<Longrightarrow> files w1 = (files w)(p := None)"
  by (auto simp: fs_unlink_def split: prod.splits option.splits dest: enter_frame)

lemma fs_unlink_fail:
  "fs_unlink p w = (Inl e, w1) \<Longrightarrow> files w1 = files w"
  by (auto simp: fs_unlink_def split: prod.splits option.splits dest: enter_frame)

lemma fs_readFile_frame:
  "fs_readFile p w = (r, w1) \<Longrightarrow>
     files w1 = files w \<and> now w1 = now w \<and> warnings w1 = warnings w"
  by (auto simp: fs_readFile_def split: prod.splits option.splits dest: enter_frame)

lemma fs_readFile_ok:
  "fs_readFile p w = (Inr c, w1) \<Longrightarrow> files w p = Some c"
  by (auto simp: fs_readFile_def split: prod.splits option.splits dest: enter_frame)

lemma fs_access_frame:
  "fs_access p w = (r, w1) \<Longrightarrow>
     files w1 = files w \<and> now w1 = now w \<and> warnings w1 = warnings w"
  by (auto simp: fs_access_def split: prod.splits option.splits dest: enter_frame)

lemma fs_access_ok:
  "fs_access p w = (Inr u, w1) \<Longrightarrow> files w p \<noteq> None"
  by (auto simp: fs_access_def split: prod.splits option.splits dest: enter_frame)

lemma tmp_not_session:
  "getSessionFilePath a s @ ''.tmp'' \<noteq> getSessionFilePath b s'"
proof
  assume "getSessionFilePath a s @ ''.tmp'' = getSessionFilePath b s'"
  then have "last (getSessionFilePath a s @ ''.tmp'') = last (getSessionFilePath b s')"
    by simp
  then show False by (simp add: getSessionFilePath_def)
qed

lemma path_inj:
  "getSessionFilePath a s = getSessionFilePath b s' \<longleftrightarrow> a = b \<and> s = s'"
  by (cases s; cases s'; simp add: getSessionFilePath_def statusDir_def)


section \<open>Atomic save\<close>

text \<open>
  C4. When the directories are in place and the write of the temporary file or the
  rename onto the session file fails, \<open>saveSession\<close> throws a state error tagged with the
  session id and the operation \<open>write\<close>, whose message carries the underlying error's;
  its last act is the attempt to remove the temporary file, whose outcome is ignored
  (when the removal works, the temporary file is gone); every path other than the
  temporary file holds what it held before the call, so no session file of any session
  in any partition was created, changed or removed.
\<close>

theorem saveSession_failure_atomic:
  assumes init: "initialize w = (Inr (), w1)"
    and final: "final = getSessionFilePath (sessionId st) (status st)"
    and tmp: "tmp = final @ ''.tmp''"
    and content: "content = SessionJson (roundtrip (st\<lparr>updatedAt := now w1\<rparr>))"
    and fail: "fs_writeFile tmp content w1 = (Inl err, w3)
               \<or> (\<exists>w2. fs_writeFile tmp content w1 = (Inr (), w2) \<and> fs_rename tmp final w2 = (Inl err, w3))"
  shows "saveSession st w =
           (Inl (ErrorObj (StateError (Some (sessionId st)) (Some OpWrite))
                   (''Failed to save session '' @ sessionId st @ '': '' @ getErrorMessage err)),
            snd (fs_unlink tmp w3))
         \<and> last (calls (snd (fs_unlink tmp w3))) = Unlink tmp
         \<and> (fst (fs_unlink tmp w3) = Inr () \<longrightarrow> files (snd (fs_unlink tmp w3)) tmp = None)
         \<and> (\<forall>p. p \<noteq> tmp \<longrightarrow> files (snd (fs_unlink tmp w3)) p = files w p)
         \<and> (\<forall>sid' s'. files (snd (fs_unlink tmp w3)) (getSessionFilePath sid' s')
                        = files w (getSessionFilePath sid' s'))"
proof -
  obtain r w' where u: "fs_unlink tmp w3 = (r, w')" by (cases "fs_unlink tmp w3")
  have f1: "files w1 = files w" using init by (auto dest: initialize_frame)
  have attempt: "(case fs_writeFile tmp content w1 of
                    (Inl e, w2) \<Rightarrow> (Inl e, w2)
                  | (Inr u, w2) \<Rightarrow> fs_rename tmp final w2) = (Inl err, w3)"
    using fail by auto
  have res: "saveSession st w =
           (Inl (ErrorObj (StateError (Some (sessionId st)) (Some OpWrite))
                   (''Failed to save session '' @ sessionId st @ '': '' @ getErrorMessage err)),
            snd (fs_unlink tmp w3))"
    using attempt unfolding tmp final content by (simp add: saveSession_def init Let_def)
  have f3: "\<forall>p. p \<noteq> tmp \<longrightarrow> files w3 p = files w1 p"
  proof -
    from fail show ?thesis
    proof
      assume "fs_writeFile tmp content w1 = (Inl err, w3)"
      then show ?thesis by (auto dest: fs_writeFile_frame)
    next
      assume "\<exists>w2. fs_writeFile tmp content w1 = (Inr (), w2) \<and> fs_rename tmp final w2 = (Inl err, w3)"
      then obtain w2 where a: "fs_writeFile tmp content w1 = (Inr (), w2)"
        and b: "fs_rename tmp final w2 = (Inl err, w3)" by blast
      from b have "files w3 = files w2" by (rule fs_rename_fail)
      then show ?thesis using a by (auto dest: fs_writeFile_frame)
    qed
  qed
  have f4: "\<forall>p. p \<noteq> tmp \<longrightarrow> files w' p = files w p"
    using u f3 f1 by (auto dest: fs_unlink_frame)
  have c: "last (calls w') = Unlink tmp"
    using u by (auto dest: fs_unlink_frame)
  have g: "r = Inr () \<longrightarrow> files w' tmp = None"
    using u by (auto dest: fs_unlink_ok)
  have s: "\<forall>sid' s'. files w' (getSessionFilePath sid' s') = files w (getSessionFilePath sid' s')"
    using f4 tmp_not_session by (simp add: tmp final) metis
  show ?thesis using res c g f4 s by (simp add: u)
qed

theorem saveSession_failure_atomic_witness:
  "\<exists>w'. saveSession (fixture_session\<lparr>currentStepIndex := 7\<rparr>)
            (fixture_world [Ok, Ok, Ok, Ok, Ok, Torn ''ENOSPC'' ''{''])
        = (Inl (ErrorObj (StateError (Some ''s1'') (Some OpWrite))
                  ''Failed to save session s1: ENOSPC''), w')
      \<and> files w' ''running/s1.json'' = Some (SessionJson fixture_session)
      \<and> files w' ''running/s1.json.tmp'' = None"
proof -
  let ?st = "fixture_session\<lparr>currentStepIndex := 7\<rparr>"
  let ?W = "fixture_world [Ok, Ok, Ok, Ok, Ok, Torn ''ENOSPC'' ''{'']"
  let ?w1 = "snd (initialize ?W)"
  let ?content = "SessionJson (roundtrip (?st\<lparr>updatedAt := now ?w1\<rparr>))"
  let ?w3 = "snd (fs_writeFile ''running/s1.json.tmp'' ?content ?w1)"
  have init: "initialize ?W = (Inr (), ?w1)"
    by (simp add: initialize_def mkdirs.simps fs_mkdir_def enter_def fault_code_def fixture_world_def)
  have fl: "faults ?w1 = [Torn ''ENOSPC'' ''{'']"
    by (simp add: initialize_def mkdirs.simps fs_mkdir_def enter_def fault_code_def fixture_world_def)
  have final: "''running/s1.json'' = getSessionFilePath (sessionId ?st) (status ?st)"
    by (simp add: getSessionFilePath_def statusDir_def fixture_session_def)
  have tmp: "''running/s1.json.tmp'' = ''running/s1.json'' @ ''.tmp''"
    by simp
  have wr: "fs_writeFile ''running/s1.json.tmp'' ?content ?w1 = (Inl (fs_error ''ENOSPC''), ?w3)"
    by (simp add: fs_writeFile_def enter_def fl)
  have fl3: "faults ?w3 = []" "files ?w3 ''running/s1.json.tmp'' \<noteq> None"
    by (simp_all add: fs_writeFile_def enter_def fl)
  have ul: "fst (fs_unlink ''running/s1.json.tmp'' ?w3) = Inr ()"
    using fl3 by (auto simp: fs_unlink_def enter_def fault_code_def split: option.splits)
  have old: "files ?W ''running/s1.json'' = Some (SessionJson fixture_session)"
    by (simp add: fixture_world_def)
  from saveSession_failure_atomic [OF init final tmp refl, of "fs_error ''ENOSPC''" ?w3] wr ul old
  show ?thesis
    by (auto simp: fixture_session_def fs_error_def getErrorMessage_def)
qed

section \<open>Step index and step executions\<close>

lemma roundtrip_fields [simp]:
  "currentStepIndex (roundtrip s) = currentStepIndex s"
  "stepExecutions (roundtrip s) = map roundtrip_execution (stepExecutions s)"
  "status (roundtrip s) = status s"
  "sessionId (roundtrip s) = sessionId s"
  by (simp_all add: roundtrip_def)

lemma saveSession_effect:
  assumes "saveSession st w = (r, w')"
    and "final = getSessionFilePath (sessionId st) (status st)"
    and "tmp = final @ ''.tmp''"
    and "c = SessionJson (roundtrip (st\<lparr>updatedAt := now w\<rparr>))"
  shows "now w' = now w \<and> warnings w' = warnings w
     \<and> (r = Inr () \<longrightarrow> files w' = ((files w)(tmp := None))(final \<mapsto> c))
     \<and> (r \<noteq> Inr () \<longrightarrow> (\<forall>p. p \<noteq> tmp \<longrightarrow> files w' p = files w p)
           \<and> (files w' tmp = files w tmp \<or> files w' tmp = None \<or> files w' tmp = Some c
                \<or> (\<exists>t. files w' tmp = Some (OtherContent t))))"
proof (cases "initialize w")
  case (Pair ri w1)
  have fr1: "files w1 = files w" "now w1 = now w" "warnings w1 = warnings w"
    using Pair by (auto dest: initialize_frame)
  show ?thesis
  proof (cases ri)
    case (Inl e)
    then show ?thesis using assms(1) Pair fr1 by (auto simp: saveSession_def)
  next
    case (Inr u)
    obtain rw w2 where wr: "fs_writeFile tmp c w1 = (rw, w2)" by (cases "fs_writeFile tmp c w1")
    have fr2: "\<forall>q. q \<noteq> tmp \<longrightarrow> files w2 q = files w1 q" "now w2 = now w1" "warnings w2 = warnings w1"
      using wr by (auto dest: fs_writeFile_frame)
    show ?thesis
    proof (cases rw)
      case (Inl e)
      obtain ru w3 where ul: "fs_unlink tmp w2 = (ru, w3)" by (cases "fs_unlink tmp w2")
      have w': "w' = w3" "r \<noteq> Inr ()"
        using assms Pair Inr wr Inl ul fr1 by (auto simp: saveSession_def Let_def)
      have t2: "files w2 tmp = files w tmp \<or> (\<exists>t. files w2 tmp = Some (OtherContent t))"
        using wr Inl fr1
        by (auto simp: fs_writeFile_def split: prod.splits fault.splits dest: enter_frame)
      have "files w3 = files w2 \<or> files w3 = (files w2)(tmp := None)"
        using ul by (cases ru) (auto dest: fs_unlink_fail fs_unlink_ok)
      then show ?thesis
        using w' fr2 fr1 t2 ul by (auto dest: fs_unlink_frame)
    next
      case (Inr u2)
      have f2: "files w2 = (files w1)(tmp \<mapsto> c)"
        using wr Inr by (auto dest: fs_writeFile_ok)
      obtain rr w3 where rn: "fs_rename tmp final w2 = (rr, w3)" by (cases "fs_rename tmp final w2")
      show ?thesis
      proof (cases rr)
        case (Inl e)
        obtain ru w4 where ul: "fs_unlink tmp w3 = (ru, w4)" by (cases "fs_unlink tmp w3")
        have w': "w' = w4" "r \<noteq> Inr ()"
          using assms Pair \<open>ri = Inr u\<close> wr Inr rn Inl ul fr1 by (auto simp: saveSession_def Let_def)
        have f3: "files w3 = files w2" using rn Inl by (auto dest: fs_rename_fail)
        have n3: "now w3 = now w2" "warnings w3 = warnings w2" using rn by (auto dest: fs_rename_frame)
        have "files w4 = files w3 \<or> files w4 = (files w3)(tmp := None)"
          using ul by (cases ru) (auto dest: fs_unlink_fail fs_unlink_ok)
        then show ?thesis
          using w' f3 f2 fr1 fr2 n3 ul by (auto dest: fs_unlink_frame)
      next
        case (Inr u3)
        have w': "w' = w3" "r = Inr ()"
          using assms Pair \<open>ri = Inr u\<close> wr \<open>rw = Inr u2\<close> rn Inr fr1 by (auto simp: saveSession_def Let_def)
        have "files w3 = ((files w2)(tmp := None))(final \<mapsto> c)"
          using rn Inr f2 by (auto dest!: fs_rename_ok)
        then show ?thesis
          using w' f2 fr1 fr2 rn by (auto dest: fs_rename_frame)
      qed
    qed
  qed
qed


lemma probe_frame:
  "probe sid ss w = (r, w1) \<Longrightarrow>
     files w1 = files w \<and> now w1 = now w \<and> warnings w1 = warnings w"
proof (induction ss arbitrary: w)
  case Nil
  then show ?case by (simp add: probe.simps)
next
  case (Cons s ss)
  then show ?case
    by (fastforce simp: probe.simps split: prod.splits sum.splits dest: fs_access_frame)
qed

lemma probe_ok:
  "probe sid ss w = (Inr p, w1) \<Longrightarrow>
     \<exists>s \<in> set ss. p = getSessionFilePath sid s \<and> files w p \<noteq> None"
proof (induction ss arbitrary: w)
  case Nil
  then show ?case by (simp add: probe.simps)
next
  case (Cons s ss)
  show ?case
  proof (cases "fs_access (getSessionFilePath sid s) w")
    case (Pair ra wa)
    show ?thesis
    proof (cases ra)
      case (Inr u)
      then show ?thesis using Cons.prems Pair by (auto simp: probe.simps dest: fs_access_ok)
    next
      case (Inl e)
      then have "probe sid ss wa = (Inr p, w1)" using Cons.prems Pair by (simp add: probe.simps)
      from Cons.IH [OF this] have "\<exists>s \<in> set ss. p = getSessionFilePath sid s \<and> files wa p \<noteq> None" .
      moreover have "files wa = files w" using Pair by (auto dest: fs_access_frame)
      ultimately show ?thesis by auto
    qed
  qed
qed

lemma loadSession_frame:
  "loadSession sid es w = (r, w1) \<Longrightarrow>
     files w1 = files w \<and> now w1 = now w \<and> warnings w1 = warnings w"
  by (auto simp: loadSession_def findSessionFile_def
        split: option.splits prod.splits sum.splits if_splits
        dest!: probe_frame fs_readFile_frame)

lemma loadSession_ok:
  "loadSession sid es w = (Inr s, w1) \<Longrightarrow>
     \<exists>st. files w (getSessionFilePath sid st) = Some (SessionJson s)
          \<and> (\<forall>e. es = Some e \<longrightarrow> st = e)"
proof (cases es)
  case None
  assume a: "loadSession sid es w = (Inr s, w1)"
  obtain rp wp where pr: "probe sid [Running, Paused, Completed, Failed] w = (rp, wp)"
    by (cases "probe sid [Running, Paused, Completed, Failed] w")
  from a None pr obtain p where rp: "rp = Inr p"
    by (cases rp) (auto simp: loadSession_def findSessionFile_def)
  from pr rp obtain st where st: "p = getSessionFilePath sid st"
    by (auto dest!: probe_ok)
  have fp: "files wp = files w" using pr by (auto dest: probe_frame)
  from a None pr rp have "\<exists>w2. fs_readFile p wp = (Inr (SessionJson s), w2)"
    by (auto simp: loadSession_def findSessionFile_def json_parse_def
          split: prod.splits sum.splits if_splits fileContent.splits)
  then have "files wp p = Some (SessionJson s)" by (auto dest: fs_readFile_ok)
  then show ?thesis using st fp None by auto
next
  case (Some e)
  assume a: "loadSession sid es w = (Inr s, w1)"
  from a Some have "\<exists>w2. fs_readFile (getSessionFilePath sid e) w = (Inr (SessionJson s), w2)"
    by (auto simp: loadSession_def json_parse_def
          split: prod.splits sum.splits if_splits fileContent.splits)
  then have "files w (getSessionFilePath sid e) = Some (SessionJson s)" by (auto dest: fs_readFile_ok)
  then show ?thesis using Some by auto
qed















lemmas fs_eval = loadSession_def findSessionFile_def probe.simps fs_access_def fs_readFile_def
  fs_writeFile_def fs_rename_def fs_unlink_def fs_mkdir_def mkdirs.simps initialize_def
  saveSession_def enter_def fault_code_def json_parse_def getSessionFilePath_def statusDir_def
  Let_def


section \<open>Status moves\<close>

lemma unlinks_append [simp]: "unlinks (a @ b) = unlinks a @ unlinks b"
  by (induction a rule: unlinks.induct) auto

lemma enter_calls: "enter call w = (f, w1) \<Longrightarrow> calls w1 = calls w @ [call]"
  by (auto dest: enter_frame)

lemma fs_mkdir_unlinks: "fs_mkdir p w = (r, w1) \<Longrightarrow> unlinks (calls w1) = unlinks (calls w)"
  by (auto simp: fs_mkdir_def split: prod.splits option.splits dest!: enter_calls)

lemma mkdirs_unlinks: "mkdirs ds w = (r, w1) \<Longrightarrow> unlinks (calls w1) = unlinks (calls w)"
proof (induction ds arbitrary: w)
  case Nil
  then show ?case by (simp add: mkdirs.simps)
next
  case (Cons d ds)
  then show ?case
    by (fastforce simp: mkdirs.simps split: prod.splits sum.splits dest: fs_mkdir_unlinks)
qed

lemma initialize_unlinks: "initialize w = (r, w1) \<Longrightarrow> unlinks (calls w1) = unlinks (calls w)"
  by (auto simp: initialize_def split: prod.splits sum.splits dest: mkdirs_unlinks)

lemma fs_access_unlinks: "fs_access p w = (r, w1) \<Longrightarrow> unlinks (calls w1) = unlinks (calls w)"
  by (auto simp: fs_access_def split: prod.splits option.splits dest!: enter_calls)

lemma fs_readFile_unlinks: "fs_readFile p w = (r, w1) \<Longrightarrow> unlinks (calls w1) = unlinks (calls w)"
  by (auto simp: fs_readFile_def split: prod.splits option.splits dest!: enter_calls)

lemma probe_unlinks: "probe sid ss w = (r, w1) \<Longrightarrow> unlinks (calls w1) = unlinks (calls w)"
proof (induction ss arbitrary: w)
  case Nil
  then show ?case by (simp add: probe.simps)
next
  case (Cons s ss)
  then show ?case
    by (fastforce simp: probe.simps split: prod.splits sum.splits dest: fs_access_unlinks)
qed

lemma loadSession_unlinks:
  "loadSession sid es w = (r, w1) \<Longrightarrow> unlinks (calls w1) = unlinks (calls w)"
  by (auto simp: loadSession_def findSessionFile_def
        split: option.splits prod.splits sum.splits if_splits
        dest!: probe_unlinks fs_readFile_unlinks)

lemma saveSession_ok_unlinks:
  assumes "saveSession st w = (Inr (), w')"
  shows "unlinks (calls w') = unlinks (calls w)"
proof -
  obtain ri w1 where i: "initialize w = (ri, w1)" by (cases "initialize w")
  have u1: "unlinks (calls w1) = unlinks (calls w)" using i by (rule initialize_unlinks)
  from assms i obtain w2 where
    wr: "fs_writeFile (getSessionFilePath (sessionId st) (status st) @ ''.tmp'')
           (SessionJson (roundtrip (st\<lparr>updatedAt := now w1\<rparr>))) w1 = (Inr (), w2)"
    and rn: "fs_rename (getSessionFilePath (sessionId st) (status st) @ ''.tmp'')
           (getSessionFilePath (sessionId st) (status st)) w2 = (Inr (), w')"
    by (auto simp: saveSession_def Let_def split: prod.splits sum.splits)
  have "calls w2 = calls w1 @ [WriteFile (getSessionFilePath (sessionId st) (status st) @ ''.tmp'')]"
    using wr by (auto dest: fs_writeFile_frame)
  moreover have "calls w' = calls w2 @ [Rename (getSessionFilePath (sessionId st) (status st) @ ''.tmp'')
           (getSessionFilePath (sessionId st) (status st))]"
    using rn by (auto dest: fs_rename_frame)
  ultimately show ?thesis using u1 by simp
qed

lemma probe_no_faults:
  "faults w = [] \<Longrightarrow> \<exists>s \<in> set ss. files w (getSessionFilePath sid s) \<noteq> None \<Longrightarrow>
     \<exists>p w1. probe sid ss w = (Inr p, w1) \<and> faults w1 = [] \<and> files w1 = files w"
proof (induction ss arbitrary: w)
  case Nil
  then show ?case by simp
next
  case (Cons s ss)
  show ?case
  proof (cases "files w (getSessionFilePath sid s)")
    case (Some c)
    then show ?thesis
      using Cons.prems(1) by (simp add: probe.simps fs_access_def enter_def fault_code_def)
  next
    case None
    let ?w1 = "w\<lparr>calls := calls w @ [Access (getSessionFilePath sid s)]\<rparr>"
    have a: "fs_access (getSessionFilePath sid s) w = (Inl (fs_error ''ENOENT''), ?w1)"
      using Cons.prems(1) None by (simp add: fs_access_def enter_def fault_code_def)
    have "\<exists>s \<in> set ss. files ?w1 (getSessionFilePath sid s) \<noteq> None"
      using Cons.prems(2) None by auto
    from Cons.IH [OF _ this] obtain p w2 where
      "probe sid ss ?w1 = (Inr p, w2)" "faults w2 = []" "files w2 = files ?w1"
      using Cons.prems(1) by auto
    then show ?thesis using a by (simp add: probe.simps)
  qed
qed


lemma loadSession_no_faults:
  assumes "faults w = []"
    and "\<forall>st. (files w (getSessionFilePath sid st) \<noteq> None) = (st = new)"
    and "files w (getSessionFilePath sid new) = Some (SessionJson c)"
  shows "\<exists>w1. loadSession sid None w = (Inr c, w1)"
proof -
  have "\<exists>s \<in> set [Running, Paused, Completed, Failed]. files w (getSessionFilePath sid s) \<noteq> None"
    using assms(2) by (cases new) auto
  from probe_no_faults [OF assms(1) this] obtain p w1 where
    pr: "probe sid [Running, Paused, Completed, Failed] w = (Inr p, w1)"
    and f1: "faults w1 = []" and fl: "files w1 = files w" by blast
  from probe_ok [OF pr] obtain s where "p = getSessionFilePath sid s" "files w p \<noteq> None" by blast
  then have p: "p = getSessionFilePath sid new" using assms(2) by auto
  have "fs_readFile p w1 = (Inr (SessionJson c), w1\<lparr>calls := calls w1 @ [ReadFile p]\<rparr>)"
    using f1 fl p assms(3) by (simp add: fs_readFile_def enter_def fault_code_def)
  then show ?thesis
    using pr by (simp add: loadSession_def findSessionFile_def json_parse_def)
qed

text \<open>
  C3 (as amended). Take a session stored in exactly one partition \<open>old\<close>, in a file
  whose state records that status and the session id. When
  \<open>updateSessionStatus(id, newStatus)\<close> with \<open>newStatus \<noteq> old\<close> succeeds and logs no
  warning (the removal of the old file did not fail), the session file exists in the
  \<open>newStatus\<close> partition only, an unhinted \<open>loadSession(id)\<close> that returns a record
  returns one with status \<open>newStatus\<close>, it does return one when the file system does not
  fail, and the one file the call removed is the old partition's. When the loaded status
  already equals \<open>newStatus\<close>, a successful call removes no file: it makes no unlink call
  and every file other than the temporary file is still there.
  (When the removal of the old file fails, the call still succeeds, with a warning, and
  the old copy stays.)
\<close>

theorem updateSessionStatus_moves:
  "(updateSessionStatus sid new w = (Inr (), w')
      \<and> (\<forall>st. (files w (getSessionFilePath sid st) \<noteq> None) = (st = old))
      \<and> (\<forall>s. files w (getSessionFilePath sid old) = Some (SessionJson s)
               \<longrightarrow> status s = old \<and> sessionId s = sid)
      \<and> old \<noteq> new \<and> warnings w' = warnings w
    \<longrightarrow> (\<forall>st. (files w' (getSessionFilePath sid st) \<noteq> None) = (st = new))
        \<and> (\<forall>fs s'' w''. loadSession sid None (w'\<lparr>faults := fs\<rparr>) = (Inr s'', w'')
               \<longrightarrow> status s'' = new)
        \<and> (\<exists>s'' w''. loadSession sid None (w'\<lparr>faults := []\<rparr>) = (Inr s'', w'')
               \<and> status s'' = new)
        \<and> unlinks (calls w') = unlinks (calls w) @ [getSessionFilePath sid old])
   \<and> (updateSessionStatus sid new w = (Inr (), w')
      \<and> loadSession sid None w = (Inr s, w1) \<and> status s = new
    \<longrightarrow> unlinks (calls w') = unlinks (calls w)
        \<and> (\<forall>p. files w p \<noteq> None \<and> p \<noteq> getSessionFilePath (sessionId s) new @ ''.tmp''
               \<longrightarrow> files w' p \<noteq> None))"
proof (intro conjI impI)
  assume a: "updateSessionStatus sid new w = (Inr (), w')
      \<and> (\<forall>st. (files w (getSessionFilePath sid st) \<noteq> None) = (st = old))
      \<and> (\<forall>s. files w (getSessionFilePath sid old) = Some (SessionJson s)
               \<longrightarrow> status s = old \<and> sessionId s = sid)
      \<and> old \<noteq> new \<and> warnings w' = warnings w"
  then have upd: "updateSessionStatus sid new w = (Inr (), w')"
    and one: "\<forall>st. (files w (getSessionFilePath sid st) \<noteq> None) = (st = old)"
    and placed: "\<forall>s. files w (getSessionFilePath sid old) = Some (SessionJson s)
               \<longrightarrow> status s = old \<and> sessionId s = sid"
    and ne: "old \<noteq> new" and nw: "warnings w' = warnings w" by auto
  obtain r1 w1 where ld: "loadSession sid None w = (r1, w1)" by (cases "loadSession sid None w")
  from upd ld obtain s where r1: "r1 = Inr s"
    by (cases r1) (auto simp: updateSessionStatus_def)
  from loadSession_ok [OF ld [unfolded r1]] one
  have "files w (getSessionFilePath sid old) = Some (SessionJson s)"
    by (metis option.distinct(1))
  with placed have st: "status s = old" and id: "sessionId s = sid" by auto
  have fr1: "files w1 = files w" "warnings w1 = warnings w" "unlinks (calls w1) = unlinks (calls w)"
    using ld by (auto dest: loadSession_frame loadSession_unlinks)
  let ?st = "s\<lparr>status := new, updatedAt := now w1\<rparr>"
  let ?final = "getSessionFilePath sid new"
  let ?tmp = "?final @ ''.tmp''"
  let ?c = "SessionJson (roundtrip (?st\<lparr>updatedAt := now w1\<rparr>))"
  obtain r2 w2 where sv: "saveSession ?st w1 = (r2, w2)" by (cases "saveSession ?st w1")
  from upd ld r1 sv have r2: "r2 = Inr ()"
    by (cases r2) (auto simp: updateSessionStatus_def Let_def)
  from saveSession_effect [OF sv refl refl refl] r2 id
  have f2: "files w2 = ((files w1)(?tmp := None))(?final \<mapsto> ?c)" and w2: "warnings w2 = warnings w1"
    by auto
  have u2: "unlinks (calls w2) = unlinks (calls w1)"
    using sv r2 by (auto dest: saveSession_ok_unlinks)
  obtain r3 w3 where ul: "fs_unlink (getSessionFilePath sid old) w2 = (r3, w3)"
    by (cases "fs_unlink (getSessionFilePath sid old) w2")
  have w3: "warnings w3 = warnings w2" and c3: "calls w3 = calls w2 @ [Unlink (getSessionFilePath sid old)]"
    using ul by (auto dest: fs_unlink_frame)
  have r3: "r3 = Inr ()"
  proof (cases r3)
    case (Inl e)
    then have "warnings w' = warnings w3 @ [''Could not remove old session file ''
        @ getSessionFilePath sid old @ '': '' @ getErrorMessage e]"
      using upd ld r1 sv r2 ul st ne by (auto simp: updateSessionStatus_def Let_def)
    then show ?thesis using nw w3 w2 fr1 by simp
  next
    case (Inr u)
    then show ?thesis by simp
  qed
  have w': "w' = w3"
    using upd ld r1 sv r2 ul r3 st ne by (auto simp: updateSessionStatus_def Let_def)
  have f3: "files w3 = (files w2)(getSessionFilePath sid old := None)"
    using ul r3 by (auto dest: fs_unlink_ok)
  show only: "\<forall>st. (files w' (getSessionFilePath sid st) \<noteq> None) = (st = new)"
  proof
    fix st
    have t: "getSessionFilePath sid st \<noteq> ?tmp" using tmp_not_session [of sid new sid st] by auto
    show "(files w' (getSessionFilePath sid st) \<noteq> None) = (st = new)"
      using w' f3 f2 fr1 one ne t by (auto simp: path_inj)
  qed
  have content: "files w' ?final = Some ?c"
    using w' f3 f2 ne by (auto simp: path_inj)
  show "\<forall>fs s'' w''. loadSession sid None (w'\<lparr>faults := fs\<rparr>) = (Inr s'', w'') \<longrightarrow> status s'' = new"
  proof (intro allI impI)
    fix fs s'' w''
    assume l: "loadSession sid None (w'\<lparr>faults := fs\<rparr>) = (Inr s'', w'')"
    from loadSession_ok [OF l] obtain st where
      "files w' (getSessionFilePath sid st) = Some (SessionJson s'')" by auto
    then have "st = new" using only by (metis option.distinct(1))
    then have "s'' = roundtrip (?st\<lparr>updatedAt := now w1\<rparr>)"
      using \<open>files w' (getSessionFilePath sid st) = Some (SessionJson s'')\<close> content by simp
    then show "status s'' = new" by simp
  qed
  have "\<exists>wl. loadSession sid None (w'\<lparr>faults := []\<rparr>) = (Inr (roundtrip (?st\<lparr>updatedAt := now w1\<rparr>)), wl)"
    by (rule loadSession_no_faults [where new = new]) (use only content in simp_all)
  then show "\<exists>s'' w''. loadSession sid None (w'\<lparr>faults := []\<rparr>) = (Inr s'', w'') \<and> status s'' = new"
    by auto
  show "unlinks (calls w') = unlinks (calls w) @ [getSessionFilePath sid old]"
    using w' c3 u2 fr1 by simp
next
  assume a: "updateSessionStatus sid new w = (Inr (), w')
      \<and> loadSession sid None w = (Inr s, w1) \<and> status s = new"
  then have upd: "updateSessionStatus sid new w = (Inr (), w')"
    and ld: "loadSession sid None w = (Inr s, w1)" and st: "status s = new" by auto
  have fr1: "files w1 = files w" "unlinks (calls w1) = unlinks (calls w)"
    using ld by (auto dest: loadSession_frame loadSession_unlinks)
  let ?st = "s\<lparr>status := new, updatedAt := now w1\<rparr>"
  obtain r2 w2 where sv: "saveSession ?st w1 = (r2, w2)" by (cases "saveSession ?st w1")
  from upd ld sv have r2: "r2 = Inr ()"
    by (cases r2) (auto simp: updateSessionStatus_def Let_def)
  have w': "w' = w2"
    using upd ld sv r2 st by (auto simp: updateSessionStatus_def Let_def)
  from saveSession_effect [OF sv refl refl refl] r2
  have f2: "files w2 = ((files w1)(getSessionFilePath (sessionId s) new @ ''.tmp'' := None))
      (getSessionFilePath (sessionId s) new \<mapsto> SessionJson (roundtrip (?st\<lparr>updatedAt := now w1\<rparr>)))"
    by auto
  show "unlinks (calls w') = unlinks (calls w)"
    using w' sv r2 fr1 by (auto dest: saveSession_ok_unlinks)
  show "\<forall>p. files w p \<noteq> None \<and> p \<noteq> getSessionFilePath (sessionId s) new @ ''.tmp''
               \<longrightarrow> files w' p \<noteq> None"
    using w' f2 fr1 by auto
qed


lemmas fs_eval2 = updateSessionStatus_def fs_eval fixture_world_def fixture_session_def
  roundtrip_def json_obj_def getErrorMessage_def fs_error_def isFileNotFoundError_def

theorem updateSessionStatus_moves_witness:
  "fst (updateSessionStatus ''s1'' Completed (fixture_world [])) = Inr ()
   \<and> files (snd (updateSessionStatus ''s1'' Completed (fixture_world []))) ''running/s1.json'' = None
   \<and> files (snd (updateSessionStatus ''s1'' Completed (fixture_world []))) ''completed/s1.json'' \<noteq> None
   \<and> (\<exists>s'' w''. loadSession ''s1'' None
                    ((snd (updateSessionStatus ''s1'' Completed (fixture_world [])))\<lparr>faults := []\<rparr>)
                  = (Inr s'', w'') \<and> status s'' = Completed)
   \<and> unlinks (calls (snd (updateSessionStatus ''s1'' Completed (fixture_world []))))
       = [''running/s1.json'']"
proof -
  let ?W = "fixture_world []"
  let ?W' = "snd (updateSessionStatus ''s1'' Completed ?W)"
  have ok: "updateSessionStatus ''s1'' Completed ?W = (Inr (), ?W')"
    by (simp add: fs_eval2)
  have one: "\<forall>st. (files ?W (getSessionFilePath ''s1'' st) \<noteq> None) = (st = Running)"
  proof
    fix st show "(files ?W (getSessionFilePath ''s1'' st) \<noteq> None) = (st = Running)"
      by (cases st) (simp_all add: fixture_world_def getSessionFilePath_def statusDir_def)
  qed
  have placed: "\<forall>s. files ?W (getSessionFilePath ''s1'' Running) = Some (SessionJson s)
               \<longrightarrow> status s = Running \<and> sessionId s = ''s1''"
    by (simp add: fixture_world_def getSessionFilePath_def statusDir_def fixture_session_def)
  have nw: "warnings ?W' = warnings ?W"
    by (simp add: fs_eval2)
  have c0: "unlinks (calls ?W) = []"
    by (simp add: fixture_world_def)
  have paths: "getSessionFilePath ''s1'' Running = ''running/s1.json''"
    "getSessionFilePath ''s1'' Completed = ''completed/s1.json''"
    by (simp_all add: getSessionFilePath_def statusDir_def)
  note inst = updateSessionStatus_moves
      [where sid = "''s1''" and new = Completed and w = ?W and w' = ?W' and old = Running]
  have only: "\<forall>st. (files ?W' (getSessionFilePath ''s1'' st) \<noteq> None) = (st = Completed)"
    and ld: "\<exists>s'' w''. loadSession ''s1'' None (?W'\<lparr>faults := []\<rparr>) = (Inr s'', w'') \<and> status s'' = Completed"
    and ul: "unlinks (calls ?W') = unlinks (calls ?W) @ [getSessionFilePath ''s1'' Running]"
    using inst ok one placed nw by blast+
  have a: "files ?W' ''running/s1.json'' = None"
    using only [rule_format, of Running] by (simp add: paths)
  have b: "files ?W' ''completed/s1.json'' \<noteq> None"
    using only [rule_format, of Completed] by (simp add: paths)
  have ok': "fst (updateSessionStatus ''s1'' Completed ?W) = Inr ()"
    using ok by (metis fst_conv)
  have ul': "unlinks (calls ?W') = [''running/s1.json'']"
    using ul by (simp add: c0 paths)
  show ?thesis
    using ok' a b ld ul' by blast
qed

text \<open>The claim as stated fails when the removal of the old file fails: the call
  succeeds, the file under \<open>running/\<close> is still there, and the unhinted load, which
  probes \<open>running/\<close> first, returns the stale record with status \<open>running\<close>.\<close>

theorem updateSessionStatus_stale_copy_counterexample:
  "fst (updateSessionStatus ''s1'' Completed
          (fixture_world [Ok, Ok, Ok, Ok, Ok, Ok, Ok, Ok, Ok, Fail ''EBUSY''])) = Inr ()
   \<and> files (snd (updateSessionStatus ''s1'' Completed
          (fixture_world [Ok, Ok, Ok, Ok, Ok, Ok, Ok, Ok, Ok, Fail ''EBUSY''])))
        ''running/s1.json'' = Some (SessionJson fixture_session)
   \<and> map_sum id status
        (fst (loadSession ''s1'' None
           (snd (updateSessionStatus ''s1'' Completed
              (fixture_world [Ok, Ok, Ok, Ok, Ok, Ok, Ok, Ok, Ok, Fail ''EBUSY''])))))
       = Inr Running"
  by (simp add: fs_eval2)

section \<open>Retry backoff\<close>

text \<open>
  C5 (as amended). For a policy whose \<open>backoffMs\<close> is a non-zero number the retry delay
  is \<open>backoffMs * 2^retryCount\<close>. The 1000 ms default base applies when the policy
  lacks the field and also when the field is 0 (the code reads it through \<open>||\<close>), so
  such a policy waits \<open>1000 * 2^retryCount\<close>; with no policy at all the delay is 1000.
\<close>

theorem calculateRetryDelay_backoff:
  "(backoffMs p = Some b \<and> b \<noteq> 0 \<longrightarrow> calculateRetryDelay (Some p) n = b * 2 ^ n)
   \<and> (backoffMs p = None \<or> backoffMs p = Some 0 \<longrightarrow> calculateRetryDelay (Some p) n = 1000 * 2 ^ n)
   \<and> calculateRetryDelay None n = 1000"
  by (auto simp: calculateRetryDelay_def)

theorem calculateRetryDelay_backoff_witness:
  "calculateRetryDelay (Some \<lparr>maxAttempts = 3, backoffMs = Some 100, retryOn = None\<rparr>) 2 = 400
   \<and> calculateRetryDelay (Some \<lparr>maxAttempts = 3, backoffMs = None, retryOn = None\<rparr>) 2 = 4000
   \<and> calculateRetryDelay (Some \<lparr>maxAttempts = 3, backoffMs = Some 0, retryOn = None\<rparr>) 2 = 4000"
  using calculateRetryDelay_backoff
          [of "\<lparr>maxAttempts = 3, backoffMs = Some 100, retryOn = None\<rparr>" 100 2]
        calculateRetryDelay_backoff
          [of "\<lparr>maxAttempts = 3, backoffMs = None, retryOn = None\<rparr>" 0 2]
        calculateRetryDelay_backoff
          [of "\<lparr>maxAttempts = 3, backoffMs = Some 0, retryOn = None\<rparr>" 0 2]
  by simp

text \<open>The claim as stated fails at \<open>backoffMs = 0\<close>: the delay is not \<open>0 * 2^retryCount\<close>.\<close>

theorem calculateRetryDelay_zero_counterexample:
  "calculateRetryDelay (Some \<lparr>maxAttempts = 3, backoffMs = Some 0, retryOn = None\<rparr>) 2
     \<noteq> 0 * 2 ^ 2"
  by (simp add: calculateRetryDelay_def)

section \<open>Truthiness in the two components\<close>

text \<open>
  C6 (as amended). The template engine's \<open>isTruthy\<close> is false exactly on \<open>null\<close>,
  \<open>undefined\<close>, \<open>false\<close>, \<open>0\<close>, \<open>''\<close> and the empty array; the expression
  evaluator's \<open>Boolean(value)\<close> is false exactly on \<open>null\<close>, \<open>undefined\<close>, \<open>false\<close>,
  \<open>0\<close>, \<open>NaN\<close> and \<open>''\<close>. The two agree on every value other than the empty array
  and \<open>NaN\<close>.
\<close>

theorem isTruthy_vs_ToBoolean:
  "isTruthy v = (v \<notin> {Undefined, Null, Bool False, Num 0, Str [], Arr []})
   \<and> ToBoolean v = (v \<notin> {Undefined, Null, Bool False, Num 0, NaN, Str []})
   \<and> (v \<noteq> Arr [] \<and> v \<noteq> NaN \<longrightarrow> isTruthy v = ToBoolean v)"
  by (cases v) auto

theorem isTruthy_vs_ToBoolean_witness:
  "isTruthy (Arr [Num 0]) \<and> ToBoolean (Arr [Num 0])
   \<and> isTruthy (Str ''0'') \<and> ToBoolean (Str ''0'')
   \<and> \<not> isTruthy (Num 0) \<and> \<not> ToBoolean (Num 0)"
  using isTruthy_vs_ToBoolean [of "Arr [Num 0]"] isTruthy_vs_ToBoolean [of "Str ''0''"]
        isTruthy_vs_ToBoolean [of "Num 0"]
  by simp

text \<open>The claim as stated fails at the empty array: falsy in the template engine,
  truthy in the expression evaluator.\<close>

theorem isTruthy_empty_array_counterexample:
  "\<not> isTruthy (Arr []) \<and> ToBoolean (Arr [])"
  by simp

section \<open>Error classification\<close>

lemma str_includes_ci: "str_includes (toLowerCase m) w = contains_ci m w"
  by (simp add: contains_ci_def str_includes_iff)

text \<open>
  C7 (as amended). An \<open>Error\<close> is classified by case-insensitive substring match on its
  message, first match wins in the listed order, \<open>temporary_failure\<close> when nothing
  matches. A falsy input (\<open>null\<close>, \<open>undefined\<close>, \<open>''\<close>, \<open>0\<close>, \<open>false\<close>) is
  \<open>temporary_failure\<close>. Any other non-Error input is classified by the same rules
  applied to its string conversion, so it is \<open>temporary_failure\<close> only when no keyword
  occurs in it.
\<close>

theorem classifyError_first_match:
  "classifyError (ErrorObj nm m) = classify_message m
   \<and> (\<not> ToBoolean v \<longrightarrow> classifyError (NonError v) = temporary_failure)
   \<and> (ToBoolean v \<longrightarrow> classifyError (NonError v) = classify_message (String v))"
  by (simp add: classifyError.simps classify_message_def str_includes_ci)

theorem classifyError_first_match_witness:
  "classifyError (ErrorObj PlainError ''Connection timeout'') = timeout
   \<and> classify_message ''Connection timeout'' = timeout
   \<and> classifyError (NonError Null) = temporary_failure
   \<and> classifyError (NonError (Str ''string error'')) = temporary_failure"
proof -
  have a: "classifyError (ErrorObj PlainError ''Connection timeout'') = timeout"
    by (simp add: classifyError.simps lower_eval)
  have b: "classifyError (NonError (Str ''string error'')) = temporary_failure"
    by (simp add: classifyError.simps lower_eval)
  show ?thesis
    using classifyError_first_match [of PlainError "''Connection timeout''" Null] a b
    by simp
qed

text \<open>The claim as stated fails for a non-Error input that carries a keyword: a thrown
  string is matched like a message.\<close>

theorem classifyError_non_error_counterexample:
  "classifyError (NonError (Str ''Connection timeout'')) \<noteq> temporary_failure"
  by (simp add: classifyError.simps lower_eval)

section \<open>The parsers always advance\<close>

text \<open>A block parser that returns a node has consumed at least its closing token, so
  the check before continuing after a nested block never fails.\<close>

lemma parse_advances:
  "parseConditional F ts = Inr (n1, r1) \<Longrightarrow> length r1 < length ts"
  "parseConditional_loop F c ts acc = Inr (n2, r2) \<Longrightarrow> length r2 < length ts"
  "parseLoop F ts = Inr (n3, r3) \<Longrightarrow> length r3 < length ts"
  "parseLoop_loop F i cp ts acc = Inr (n4, r4) \<Longrightarrow> length r4 < length ts"
proof (induction F ts and F c ts acc and F ts and F i cp ts acc
       arbitrary: n1 r1 and n2 r2 and n3 r3 and n4 r4
       rule: parseConditional_parseConditional_loop_parseLoop_parseLoop_loop.induct)
  case (1 F tokens)
  show ?case
  proof (cases tokens)
    case Nil
    then show ?thesis using "1.prems" by (simp add: parseConditional.simps)
  next
    case (Cons tk rest)
    from "1.prems" have "parseConditional_loop F (tok_value tk) rest [] = Inr (n1, r1)"
      by (simp add: parseConditional.simps Cons)
    from "1.IH" [OF Cons this] show ?thesis by (simp add: Cons)
  qed
next
  case (2 F cond tokens trueBranch)
  show ?case
  proof (cases tokens)
    case Nil
    then show ?thesis using "2.prems" by (simp add: parseConditional_loop.simps)
  next
    case (Cons tk rest)
    have eq: "parseConditional_loop F cond (tk # rest) trueBranch = Inr (n2, r2)"
      using "2.prems" by (simp add: Cons)
    note eq = eq [unfolded parseConditional_loop.simps [of F cond "tk # rest"] list.case]
    show ?thesis
    proof (cases "tok_type tk")
      case TEXT
      with eq have "parseConditional_loop F cond rest (trueBranch @ [TextNode (tok_value tk)])
                      = Inr (n2, r2)" by simp
      from "2.IH"(5) [OF Cons _ _ _ _ this] TEXT show ?thesis by (simp add: Cons)
    next
      case VARIABLE
      with eq obtain node where pv: "parseVariable F (tok_value tk) = Inr node"
        and rec: "parseConditional_loop F cond rest (trueBranch @ [node]) = Inr (n2, r2)"
        by (auto split: sum.splits)
      from "2.IH"(6) [OF Cons _ _ _ _ _ pv rec] VARIABLE show ?thesis by (simp add: Cons)
    next
      case IF_START
      with eq obtain node rest' where pc: "parseConditional F (tk # rest) = Inr (node, rest')"
        and lt: "length rest' < length (tk # rest)"
        and rec: "parseConditional_loop F cond rest' (trueBranch @ [node]) = Inr (n2, r2)"
        by (auto split: sum.splits prod.splits if_splits)
      from "2.IH"(2) [OF Cons _ _ pc refl lt rec] IF_START lt show ?thesis by (simp add: Cons)
    next
      case IF_END
      with eq show ?thesis by (simp add: Cons)
    next
      case FOREACH_START
      with eq obtain node rest' where pc: "parseLoop F (tk # rest) = Inr (node, rest')"
        and lt: "length rest' < length (tk # rest)"
        and rec: "parseConditional_loop F cond rest' (trueBranch @ [node]) = Inr (n2, r2)"
        by (auto split: sum.splits prod.splits if_splits)
      from "2.IH"(4) [OF Cons _ _ _ pc refl lt rec] FOREACH_START lt show ?thesis
        by (simp add: Cons)
    next
      case FOREACH_END
      with eq show ?thesis by simp
    next
      case ESCAPE
      with eq show ?thesis by simp
    qed
  qed
next
  case (3 F tokens)
  show ?case
  proof (cases tokens)
    case Nil
    then show ?thesis using "3.prems" by (simp add: parseLoop.simps)
  next
    case (Cons tk rest)
    from "3.prems" obtain i cp where m: "match_foreach (tok_value tk) = Some (i, cp)"
      and rec: "parseLoop_loop F i cp rest [] = Inr (n3, r3)"
      by (auto simp: parseLoop.simps Cons split: option.splits)
    from "3.IH" [OF Cons m refl rec] show ?thesis by (simp add: Cons)
  qed
next
  case (4 F itemName collectionPath tokens body)
  show ?case
  proof (cases tokens)
    case Nil
    then show ?thesis using "4.prems" by (simp add: parseLoop_loop.simps)
  next
    case (Cons tk rest)
    have eq: "parseLoop_loop F itemName collectionPath (tk # rest) body = Inr (n4, r4)"
      using "4.prems" by (simp add: Cons)
    note eq = eq [unfolded parseLoop_loop.simps [of F itemName collectionPath "tk # rest"] list.case]
    show ?thesis
    proof (cases "tok_type tk")
      case TEXT
      with eq have "parseLoop_loop F itemName collectionPath rest (body @ [TextNode (tok_value tk)])
                      = Inr (n4, r4)" by simp
      from "4.IH"(5) [OF Cons _ _ _ _ this] TEXT show ?thesis by (simp add: Cons)
    next
      case VARIABLE
      with eq obtain node where pv: "parseVariable F (tok_value tk) = Inr node"
        and rec: "parseLoop_loop F itemName collectionPath rest (body @ [node]) = Inr (n4, r4)"
        by (auto split: sum.splits)
      from "4.IH"(6) [OF Cons _ _ _ _ _ pv rec] VARIABLE show ?thesis by (simp add: Cons)
    next
      case IF_START
      with eq obtain node rest' where pc: "parseConditional F (tk # rest) = Inr (node, rest')"
        and lt: "length rest' < length (tk # rest)"
        and rec: "parseLoop_loop F itemName collectionPath rest' (body @ [node]) = Inr (n4, r4)"
        by (auto split: sum.splits prod.splits if_splits)
      from "4.IH"(2) [OF Cons _ _ pc refl lt rec] IF_START lt show ?thesis by (simp add: Cons)
    next
      case IF_END
      with eq show ?thesis by simp
    next
      case FOREACH_START
      with eq obtain node rest' where pc: "parseLoop F (tk # rest) = Inr (node, rest')"
        and lt: "length rest' < length (tk # rest)"
        and rec: "parseLoop_loop F itemName collectionPath rest' (body @ [node]) = Inr (n4, r4)"
        by (auto split: sum.splits prod.splits if_splits)
      from "4.IH"(4) [OF Cons _ _ _ pc refl lt rec] FOREACH_START lt show ?thesis
        by (simp add: Cons)
    next
      case FOREACH_END
      with eq show ?thesis by (simp add: Cons)
    next
      case ESCAPE
      with eq show ?thesis by simp
    qed
  qed
qed



section \<open>Conditions are paths\<close>

text \<open>A path that does not resolve is \<open>undefined\<close>.\<close>

lemma resolvePath_parts_unresolvable:
  "\<not> resolvable_parts parts v \<Longrightarrow> resolvePath_parts parts v = Undefined"
  by (induction parts arbitrary: v) auto

lemma resolvePath_unresolvable:
  "\<not> resolvable path context \<Longrightarrow> resolvePath path context = Undefined"
  by (simp add: resolvable_def resolvePath_def resolvePath_parts_unresolvable)

text \<open>Trimming: the two ends can be trimmed in either order, so trimming what was
  trimmed on the right gives the trimmed string.\<close>

lemma dropWhile_both_ends:
  "dropWhile P (rev (dropWhile P (rev xs))) = rev (dropWhile P (rev (dropWhile P xs)))"
  by (induction xs) (auto simp: dropWhile_append dest: set_dropWhileD)

lemma trim_nonblank: "trim c \<noteq> [] \<Longrightarrow> \<exists>x \<in> set c. \<not> is_space x"
  by (auto simp: trim_def dropWhile_eq_Nil_conv dest: set_dropWhileD)

lemma trim_rtrim: "trim (rev (dropWhile is_space (rev c))) = trim c"
  by (simp add: trim_def dropWhile_both_ends)

lemma trim_if:
  assumes "trim c \<noteq> []"
  shows "trim (''if '' @ c) = ''if '' @ rev (dropWhile is_space (rev c))"
proof -
  from trim_nonblank [OF assms] have "\<not> (\<forall>x \<in> set c. is_space x)" by blast
  then show ?thesis by (simp add: trim_def is_space_def dropWhile_append)
qed

lemma trim_endif: "trim ''endif'' = ''endif''"
  by (simp add: trim_def is_space_def)

lemma expression_token_if:
  assumes "trim c \<noteq> []"
  shows "expression_token (trim (''if '' @ c)) position = mk_token IF_START (trim c) position"
  unfolding trim_if [OF assms]
  by (simp add: expression_token_def startsWith_iff trim_rtrim)

lemma expression_token_endif:
  "expression_token (trim ''endif'') position = mk_token IF_END [] position"
  unfolding trim_endif
  by (simp add: expression_token_def startsWith_iff)

text \<open>The tokenizer on a stretch of plain text, and on one \<open>${...}\<close> expression.\<close>

lemma index_of_char_first:
  "c \<notin> set e \<Longrightarrow> index_of_char c (e @ c # rest) = Some (length e)"
  by (induction e) auto

lemma drop_expression: "drop (length e + 3) (a # b # e @ c # rest) = rest"
  by (simp add: numeral_3_eq_3)

lemma tokenize_from_text:
  "\<forall>x \<in> set body. x \<noteq> CHR ''$'' \<and> x \<noteq> CHR 0x5C \<Longrightarrow>
   tokenize_from (body @ rest) position textBuffer tokens =
     tokenize_from rest (position + length body) (textBuffer @ body) tokens"
proof (induction body arbitrary: position textBuffer)
  case Nil
  then show ?case by simp
next
  case (Cons x body)
  have "tokenize_from ((x # body) @ rest) position textBuffer tokens =
        tokenize_from (body @ rest) (position + 1) (textBuffer @ [x]) tokens"
    using Cons.prems by (subst tokenize_from.simps) simp
  also have "\<dots> = tokenize_from rest (position + 1 + length body) ((textBuffer @ [x]) @ body) tokens"
    using Cons.prems by (intro Cons.IH) simp
  finally show ?case by simp
qed

lemma tokenize_from_expression:
  assumes "CHR ''}'' \<notin> set e"
  shows "tokenize_from (''${'' @ e @ ''}'' @ rest) position textBuffer tokens =
     tokenize_from rest (position + length e + 3) []
       (flush_text textBuffer position tokens @ [expression_token (trim e) position])"
  using assms
  by (subst tokenize_from.simps) (simp add: index_of_char_first drop_expression)

lemma tokenize_conditional:
  assumes "trim c \<noteq> []" and "CHR ''}'' \<notin> set c"
    and "\<forall>x \<in> set body. x \<noteq> CHR ''$'' \<and> x \<noteq> CHR 0x5C"
  shows "tokenize (''${if '' @ c @ ''}'' @ body @ ''${endif}'') =
     Inr (mk_token IF_START (trim c) 0
          # (if body = [] then [] else [mk_token TEXT body (length c + 6 + length body)])
          @ [mk_token IF_END [] (length c + 6 + length body)])"
proof -
  have e: "CHR ''}'' \<notin> set (''if '' @ c)" using assms(2) by simp
  have "tokenize (''${if '' @ c @ ''}'' @ body @ ''${endif}'') =
        tokenize_from (''${'' @ (''if '' @ c) @ ''}'' @ (body @ ''${endif}'')) 0 [] []"
    by (simp add: tokenize_def)
  also have "\<dots> = tokenize_from (body @ ''${endif}'') (length c + 6) []
                     [expression_token (trim (''if '' @ c)) 0]"
    by (subst tokenize_from_expression [OF e]) (simp add: flush_text_def add.commute)
  also have "\<dots> = tokenize_from (''${'' @ ''endif'' @ ''}'' @ []) (length c + 6 + length body) body
                     [expression_token (trim (''if '' @ c)) 0]"
    by (subst tokenize_from_text [OF assms(3)]) (simp add: add.commute)
  also have "\<dots> = tokenize_from [] (length c + 6 + length body + 8) []
                     (flush_text body (length c + 6 + length body)
                        [expression_token (trim (''if '' @ c)) 0]
                      @ [expression_token (trim ''endif'') (length c + 6 + length body)])"
    by (subst tokenize_from_expression) simp_all
  finally show ?thesis
    unfolding expression_token_if [OF assms(1)] expression_token_endif
    by (simp add: tokenize_from.simps flush_text_def)
qed


text \<open>Whether a conditional block parses does not depend on its condition: the parser
  only stores it in the node.\<close>

lemma parseConditional_loop_errors:
  "isl (parseConditional_loop F c ts acc) = isl (parseConditional_loop F c' ts acc')"
proof (induction "length ts" arbitrary: ts acc acc' rule: less_induct)
  case less
  show ?case
  proof (cases ts)
    case Nil
    then show ?thesis by (simp add: parseConditional_loop.simps)
  next
    case (Cons tk rest)
    have step: "isl (parseConditional_loop F c r a) = isl (parseConditional_loop F c' r a')"
      if "length r < Suc (length rest)" for r a a'
      using less [of r a a'] that by (simp add: Cons)
    show ?thesis
      unfolding Cons
      by (simp only: parseConditional_loop.simps [of F c "tk # rest"]
            parseConditional_loop.simps [of F c' "tk # rest"])
         (auto split: sum.splits prod.splits simp: step)
  qed
qed

lemma parseConditional_errors:
  "isl (parseConditional F (mk_token IF_START c p # rest))
     = isl (parseConditional F (mk_token IF_START c' p' # rest))"
  by (simp add: parseConditional.simps parseConditional_loop_errors [of F _ rest "[]" _ "[]"])

text \<open>The tree of a conditional around plain text, and its evaluation when the
  condition does not resolve.\<close>

lemma buildAST_conditional:
  "buildAST F (mk_token IF_START cond p
               # (if body = [] then [] else [mk_token TEXT body q]) @ [mk_token IF_END [] r]) =
     Inr [ConditionalNode cond (if body = [] then [] else [TextNode body]) None]"
  by (simp add: buildAST_def buildAST_loop.simps parseConditional.simps
      parseConditional_loop.simps mk_token_def)

lemma evaluateConditional_unresolvable:
  "\<not> resolvable cond context \<Longrightarrow> evaluateConditional F cond trueBranch None context = Inr []"
  by (simp add: resolvePath_unresolvable)

text \<open>
  C10. The condition of a template conditional is only ever resolved as a dotted path in
  the context. For every condition that is not a resolvable dotted path (for example
  \<open>x == 1\<close>): \<open>resolvePath\<close> gives \<open>undefined\<close>; the conditional node evaluates to
  the empty string whatever its branch holds; and the template
  \<open>${if c}body${endif}\<close> around plain text parses without error, to a conditional node
  that carries the trimmed condition as it is written, and renders to the empty string
  without error. (The condition is what the tokenizer leaves between \<open>if\<close> and the
  closing brace, so it is not blank and holds no closing brace.) Whatever tokens follow
  the opening token, the block parses with this condition exactly when it parses with
  any other.
\<close>

theorem conditional_condition_is_a_path:
  assumes "\<not> resolvable (trim c) context"
    and "trim c \<noteq> []" and "CHR ''}'' \<notin> set c"
    and "\<forall>x \<in> set body. x \<noteq> CHR ''$'' \<and> x \<noteq> CHR 0x5C"
  shows "resolvePath (trim c) context = Undefined
       \<and> evaluateConditional F (trim c) trueBranch None context = Inr []
       \<and> parse F (''${if '' @ c @ ''}'' @ body @ ''${endif}'') =
           Inr [ConditionalNode (trim c) (if body = [] then [] else [TextNode body]) None]
       \<and> render F (''${if '' @ c @ ''}'' @ body @ ''${endif}'') context = Inr []
       \<and> isl (parseConditional F (mk_token IF_START (trim c) p # rest))
           = isl (parseConditional F (mk_token IF_START c' p' # rest))"
proof -
  have p: "parse F (''${if '' @ c @ ''}'' @ body @ ''${endif}'') =
           Inr [ConditionalNode (trim c) (if body = [] then [] else [TextNode body]) None]"
    unfolding parse_def tokenize_conditional [OF assms(2,3,4)]
    by (simp only: sum.case buildAST_conditional)
  have r: "render F (''${if '' @ c @ ''}'' @ body @ ''${endif}'') context = Inr []"
    unfolding render_def p
    by (simp add: evaluateConditional_unresolvable [OF assms(1)] del: evaluateConditional.simps)
  from p r resolvePath_unresolvable [OF assms(1)] evaluateConditional_unresolvable [OF assms(1)]
    parseConditional_errors [of F "trim c" p rest c' p']
  show ?thesis by blast
qed

lemmas template_eval = resolvable_def trim_def is_space_def

theorem conditional_condition_is_a_path_witness:
  "resolvePath ''x == 1'' [(''x'', Num 1)] = Undefined
   \<and> evaluateConditional no_filters ''x == 1'' [TextNode ''yes''] None [(''x'', Num 1)] = Inr []
   \<and> parse no_filters ''${if x == 1}yes${endif}'' =
       Inr [ConditionalNode ''x == 1'' [TextNode ''yes''] None]
   \<and> render no_filters ''${if x == 1}yes${endif}'' [(''x'', Num 1)] = Inr []"
  using conditional_condition_is_a_path
    [of "''x == 1''" "[(''x'', Num 1)]" "''yes''" no_filters "[TextNode ''yes'']"]
  by (simp add: template_eval)

end
